theory Spec2Isabelle
  imports Main "HOL-Library.AList" "HOL-Library.Word"
begin

section \<open>JavaScript values carried by event payloads\<close>

text \<open>
  The payload of a socket event is whatever the client sent: it may be absent, of the
  wrong type, or lack fields. Payload values are modelled by \<open>jsval\<close>, the values that
  JSON can carry. A number is a safe integer, from \<open>-2^53\<close> to \<open>2^53 - 1\<close>, held as
  a signed word of 54 bits: fractions, \<open>NaN\<close>, the infinities and larger magnitudes
  are not represented. Strings are lists of code units below 256. An object is the list
  of its own properties, none of which is a function; where a key occurs twice, the
  first binding is the property.
\<close>

datatype jsval =
    JUndefined
  | JNull
  | JBool bool
  | JNum "54 word"
  | JStr string
  | JArr "jsval list"
  | JObj "(string \<times> jsval) list"

text \<open>
  A handler returns, throws a \<open>TypeError\<close>, or never returns because the fallback
  loop of the allocator never ends. No handler catches an exception and the server
  installs no handler for uncaught ones, so a \<open>TypeError\<close> ends the process: what the
  handler had changed or emitted before it is not part of the result. The exceptions
  of this server are thrown by the first read of the payload, by \<open>message.trim()\<close>,
  and by the conversion to a string of a value that has none (in the format test of
  \<open>joinRoom\<close>, in the ledger keys, and in the log lines, of which the one that ends
  \<open>createRoom\<close> comes after the room is stored and its creator answered).
\<close>

datatype fault = TypeError | NoReturn

text \<open>Truthiness, as used by \<open>a || b\<close> and \<open>a && b\<close>.\<close>

fun truthy :: "jsval \<Rightarrow> bool" where
  "truthy JUndefined = False"
| "truthy JNull = False"
| "truthy (JBool b) = b"
| "truthy (JNum n) = (n \<noteq> 0)"
| "truthy (JStr s) = (s \<noteq> [])"
| "truthy (JArr xs) = True"
| "truthy (JObj fs) = True"

definition js_or :: "jsval \<Rightarrow> jsval \<Rightarrow> jsval" where
  "js_or a b = (if truthy a then a else b)"

text \<open>Decimal rendering of a natural number (\<open>Number.prototype.toString\<close>).\<close>

definition digit_char :: "nat \<Rightarrow> char" where
  "digit_char d = ''0123456789'' ! (d mod 10)"

function dec :: "nat \<Rightarrow> string" where
  "dec n = (if n < 10 then [digit_char n] else dec (n div 10) @ [digit_char (n mod 10)])"
  by pat_completeness auto
termination
  by (relation "measure id") auto

declare dec.simps [simp del]

fun join_comma :: "string list \<Rightarrow> string" where
  "join_comma [] = []"
| "join_comma [s] = s"
| "join_comma (s # t # ss) = s @ '','' @ join_comma (t # ss)"

text \<open>The first fault of a list of results, or all their values.\<close>

fun collect :: "(fault + 'a) list \<Rightarrow> fault + 'a list" where
  "collect [] = Inr []"
| "collect (x # xs) =
     (case x of
        Inl f \<Rightarrow> Inl f
      | Inr v \<Rightarrow> (case collect xs of Inl f \<Rightarrow> Inl f | Inr vs \<Rightarrow> Inr (v # vs)))"

text \<open>
  \<open>ToString\<close>, as applied by template literals and by \<open>RegExp.prototype.test\<close>. A
  safe integer renders in decimal. An array renders its elements separated by commas,
  with \<open>undefined\<close> and \<open>null\<close> elements rendered empty. An object is converted by
  its \<open>toString\<close> method: without an own property of that name it inherits the one
  that answers \<open>[object Object]\<close>; with one, which is no function, neither it nor the
  inherited \<open>valueOf\<close> gives a primitive value and the conversion throws a
  \<open>TypeError\<close>.
\<close>

fun js_to_string :: "jsval \<Rightarrow> fault + string" where
  "js_to_string JUndefined = Inr ''undefined''"
| "js_to_string JNull = Inr ''null''"
| "js_to_string (JBool b) = Inr (if b then ''true'' else ''false'')"
| "js_to_string (JNum n) =
     Inr (if sint n < 0 then ''-'' @ dec (nat (- sint n)) else dec (nat (sint n)))"
| "js_to_string (JStr s) = Inr s"
| "js_to_string (JArr xs) =
     (case collect (map (\<lambda>x. if x = JUndefined \<or> x = JNull then Inr []
                                else js_to_string x) xs) of
        Inl f \<Rightarrow> Inl f
      | Inr ss \<Rightarrow> Inr (join_comma ss))"
| "js_to_string (JObj fs) =
     (if map_of fs ''toString'' \<noteq> None then Inl TypeError else Inr ''[object Object]'')"

text \<open>
  Reading a property (\<open>data.k\<close>, or \<open>const { k } = data\<close>): a \<open>TypeError\<close> on
  \<open>undefined\<close> and \<open>null\<close>, the field of an object, and \<open>undefined\<close> on a missing field
  or on any other value (the handlers only read the keys \<open>code\<close>, \<open>username\<close>,
  \<open>message\<close> and \<open>isTyping\<close>, which no primitive wrapper or array defines).
\<close>

fun get_prop :: "jsval \<Rightarrow> string \<Rightarrow> fault + jsval" where
  "get_prop JUndefined k = Inl TypeError"
| "get_prop JNull k = Inl TypeError"
| "get_prop (JObj fs) k = Inr (case map_of fs k of Some v \<Rightarrow> v | None \<Rightarrow> JUndefined)"
| "get_prop v k = Inr JUndefined"

text \<open>The pattern \<open>/^\d{4}$/\<close>: exactly four characters, each a decimal digit.\<close>

definition is_digit :: "char \<Rightarrow> bool" where
  "is_digit c = (c \<in> set ''0123456789'')"

definition four_digits :: "string \<Rightarrow> bool" where
  "four_digits s = (length s = 4 \<and> list_all is_digit s)"

definition code_test :: "jsval \<Rightarrow> fault + bool" where
  "code_test v =
     (case js_to_string v of Inl f \<Rightarrow> Inl f | Inr s \<Rightarrow> Inr (four_digits s))"

text \<open>
  \<open>String.prototype.trim\<close> on code units below 256: tab, line feed, vertical tab, form
  feed, carriage return, space and the no-break space are removed from both ends.
\<close>

definition is_ws :: "char \<Rightarrow> bool" where
  "is_ws c = (of_char c \<in> {9, 10, 11, 12, 13, 32, 160 :: nat})"

definition trim :: "string \<Rightarrow> string" where
  "trim s = rev (dropWhile is_ws (rev (dropWhile is_ws s)))"

text \<open>\<open>s.padStart(4, '0')\<close>.\<close>

definition padStart4 :: "string \<Rightarrow> string" where
  "padStart4 s = replicate (4 - length s) (CHR ''0'') @ s"

section \<open>Data model\<close>

record user =
  socketId :: string
  username :: jsval
  joinedAt :: nat

text \<open>
  The id of a message is \<open>Date.now() + Math.random()\<close>: the clock reading and the
  draw are kept as a pair.
\<close>

record message =
  msg_id :: "nat \<times> nat"
  msg_username :: jsval
  msg_text :: string
  msg_timestamp :: nat
  msg_socketId :: string

record room =
  users :: "user list"
  messages :: "message list"
  createdAt :: nat
  expiresAt :: nat
  lastActivity :: nat
  inVoiceChat :: "bool option"

definition ROOM_EXPIRY_TIME :: nat where
  "ROOM_EXPIRY_TIME = 10 * 60 * 1000"

text \<open>
  The process state. \<open>rooms\<close> is the \<open>Map\<close> of rooms in insertion order; \<open>usedCodes\<close> the
  \<open>Set\<close> of allocated codes; \<open>userSessions\<close> and \<open>usernameSessions\<close> the key sets of the
  two ledger maps (every stored value is \<open>true\<close>). \<open>roomCode\<close> is the \<open>socket.roomCode\<close>
  property of each socket (\<open>None\<close> for \<open>undefined\<close> and \<open>null\<close>), \<open>members\<close> the
  subscribers of each broadcast group of the transport (\<open>socket.join\<close>,
  \<open>socket.leave\<close>), and \<open>disconnected\<close> the sockets that have closed. The group
  that the transport keeps for each socket under its own id is left out: the handlers
  address groups by room code only, and a socket id is no room code.
\<close>

record state =
  rooms :: "(string \<times> room) list"
  usedCodes :: "string set"
  userSessions :: "string set"
  usernameSessions :: "string set"
  roomCode :: "string \<Rightarrow> string option"
  members :: "string \<Rightarrow> string set"
  disconnected :: "string set"

definition init :: state where
  "init = \<lparr> rooms = [], usedCodes = {}, userSessions = {}, usernameSessions = {},
            roomCode = (\<lambda>_. None), members = (\<lambda>_. {}), disconnected = {} \<rparr>"

definition has_room :: "(string \<times> room) list \<Rightarrow> string \<Rightarrow> bool" where
  "has_room rs c = (map_of rs c \<noteq> None)"

section \<open>Code allocator\<close>

text \<open>
  \<open>Math.random\<close> is an oracle: \<open>rnd i\<close> stands for the \<open>i\<close>-th draw made by a handler,
  and \<open>Math.floor(Math.random() * N)\<close> for its value reduced below \<open>N\<close>.
\<close>

definition random_code :: "(nat \<Rightarrow> nat) \<Rightarrow> nat \<Rightarrow> string" where
  "random_code rnd i = padStart4 (dec (rnd i mod 10000))"

definition maxAttempts :: nat where
  "maxAttempts = 100"

text \<open>The first \<open>do ... while\<close> loop: at most \<open>maxAttempts\<close> draws against \<open>usedCodes\<close>.\<close>

function first_loop :: "(nat \<Rightarrow> nat) \<Rightarrow> string set \<Rightarrow> nat \<Rightarrow> string \<times> nat" where
  "first_loop rnd used attempts =
     (let code = random_code rnd attempts; attempts' = attempts + 1
      in if code \<in> used \<and> attempts' < maxAttempts
         then first_loop rnd used attempts'
         else (code, attempts'))"
  by pat_completeness auto
termination
  by (relation "measure (\<lambda>(rnd, used, attempts). maxAttempts - attempts)") auto

declare first_loop.simps [simp del]

text \<open>
  The fallback \<open>do ... while\<close> loop draws until a code is not a key of \<open>rooms\<close>; it has no
  bound, so it is a partial function: \<open>None\<close> is the loop that never ends.
\<close>

partial_function (option) fallback_loop ::
  "(nat \<Rightarrow> nat) \<Rightarrow> (string \<times> room) list \<Rightarrow> nat \<Rightarrow> (string \<times> nat) option" where
  "fallback_loop rnd rs i =
     (let fallbackCode = random_code rnd i
      in if has_room rs fallbackCode
         then fallback_loop rnd rs (i + 1)
         else Some (fallbackCode, i + 1))"

declare fallback_loop.simps [code]

text \<open>
  \<open>generateUniqueRoomCode\<close> returns the code, the number of draws made, and the state
  with the code added to \<open>usedCodes\<close>.
\<close>

definition generateUniqueRoomCode ::
  "(nat \<Rightarrow> nat) \<Rightarrow> state \<Rightarrow> (string \<times> nat \<times> state) option" where
  "generateUniqueRoomCode rnd s =
     (case first_loop rnd (usedCodes s) 0 of (code, attempts) \<Rightarrow>
        if attempts \<ge> maxAttempts
        then (case fallback_loop rnd (rooms s) attempts of
                None \<Rightarrow> None
              | Some (fallbackCode, k) \<Rightarrow>
                  Some (fallbackCode, k, s\<lparr>usedCodes := insert fallbackCode (usedCodes s)\<rparr>))
        else Some (code, attempts, s\<lparr>usedCodes := insert code (usedCodes s)\<rparr>))"


section \<open>Outbound events\<close>

datatype out_event =
    ErrorEv string
  | RoomFull
  | JoinedRoom string jsval nat "message list"
  | UserJoined jsval nat
  | NewMessage message
  | UserTyping jsval jsval
  | UserLeft jsval nat
  | LeftRoom
  | RoomExpired
  | OutVoiceChatOffer jsval
  | OutVoiceChatAnswer jsval
  | OutIceCandidate jsval
  | VoiceChatStarted
  | VoiceChatEnded
  | CodeResponse string

text \<open>
  One \<open>emit\<close> call: the set of sockets it addresses and the event. \<open>socket.emit\<close>
  addresses the socket itself, \<open>io.to(code)\<close> the subscribers of the group, and
  \<open>socket.to(code)\<close> the subscribers other than the socket. The HTTP response of
  \<open>/generateRoomCode\<close> addresses no socket.
\<close>

type_synonym emission = "string set \<times> out_event"

definition msg_InvalidCode :: string where
  "msg_InvalidCode = ''Invalid code. Please enter exactly 4 digits.''"

definition msg_RoomNotFound :: string where
  "msg_RoomNotFound = ''Room not found. Please check the code or create a new room.''"

definition msg_AlreadyInRoom :: string where
  "msg_AlreadyInRoom = ''You are already in this room.''"

definition msg_RejoinForbidden :: string where
  "msg_RejoinForbidden =
     ''You cannot rejoin a room you have left. Please create a new room or use a different code.''"

definition msg_NotInRoom :: string where
  "msg_NotInRoom = ''You are not in a valid room.''"

definition msg_ParticipantNotFound :: string where
  "msg_ParticipantNotFound = ''User not found in room.''"

section \<open>Handlers\<close>

text \<open>
  The pieces the handlers share: storing a room under its code (\<open>rooms.set\<close>, and
  the mutation in place of a room held by the map), \<open>socket.join\<close> and
  \<open>socket.leave\<close>, the ledger key \<open>`${a}-${c}`\<close>, the generated display name
  \<open>`User${Math.floor(Math.random() * 1000)}`\<close>, and the search of a room's
  participants for a socket id.
\<close>

definition set_room :: "string \<Rightarrow> room \<Rightarrow> state \<Rightarrow> state" where
  "set_room c r s = s\<lparr>rooms := AList.update c r (rooms s)\<rparr>"

definition socket_join :: "string \<Rightarrow> string \<Rightarrow> state \<Rightarrow> state" where
  "socket_join sid c s = s\<lparr>members := (members s)(c := insert sid (members s c))\<rparr>"

definition socket_leave :: "string \<Rightarrow> string \<Rightarrow> state \<Rightarrow> state" where
  "socket_leave sid c s = s\<lparr>members := (members s)(c := members s c - {sid})\<rparr>"

definition session_key :: "string \<Rightarrow> string \<Rightarrow> string" where
  "session_key a c = a @ ''-'' @ c"

definition auto_name :: "(nat \<Rightarrow> nat) \<Rightarrow> nat \<Rightarrow> jsval" where
  "auto_name rnd i = JStr (''User'' @ dec (rnd i mod 1000))"

definition has_user :: "string \<Rightarrow> room \<Rightarrow> bool" where
  "has_user sid r = (find (\<lambda>u. socketId u = sid) (users r) \<noteq> None)"

text \<open>
  A template literal that inserts the value \<open>v\<close>, as the log lines and the ledger keys
  do: the conversion of \<open>v\<close> to a string may throw; otherwise the handler goes on with
  \<open>r\<close>. Log lines that insert strings only (room codes, socket ids, a message text that
  has passed \<open>trim\<close>) cannot throw and are left out, as is the log line of the leave
  handlers, which converts the display name that the ledger key has just converted.
\<close>

definition logged :: "jsval \<Rightarrow> fault + 'a \<Rightarrow> fault + 'a" where
  "logged v r = (case js_to_string v of Inl f \<Rightarrow> Inl f | Inr shown \<Rightarrow> r)"

subsection \<open>joinRoom\<close>

definition joinRoom ::
  "string \<Rightarrow> jsval \<Rightarrow> nat \<Rightarrow> (nat \<Rightarrow> nat) \<Rightarrow> state \<Rightarrow> fault + state \<times> emission list" where
  "joinRoom sid data now rnd s =
     (case get_prop data ''code'' of Inl f \<Rightarrow> Inl f | Inr code \<Rightarrow>
     (case get_prop data ''username'' of Inl f \<Rightarrow> Inl f | Inr uname \<Rightarrow>
     (case code_test code of Inl f \<Rightarrow> Inl f | Inr valid \<Rightarrow>
      if \<not> valid then Inr (s, [({sid}, ErrorEv msg_InvalidCode)])
      else (case code of
        JStr c \<Rightarrow>
          (case map_of (rooms s) c of
             None \<Rightarrow> Inr (s, [({sid}, ErrorEv msg_RoomNotFound)])
           | Some room \<Rightarrow>
               if length (users room) \<ge> 2 then Inr (s, [({sid}, RoomFull)])
               else if has_user sid room then Inr (s, [({sid}, ErrorEv msg_AlreadyInRoom)])
               else
                 (case js_to_string (js_or uname (JStr ''anonymous'')) of
                    Inl f \<Rightarrow> Inl f
                  | Inr shown \<Rightarrow>
                      let userSessionKey = session_key sid c;
                          usernameSessionKey = session_key shown c
                      in if userSessionKey \<in> userSessions s \<or>
                            usernameSessionKey \<in> usernameSessions s
                         then Inr (s, [({sid}, ErrorEv msg_RejoinForbidden)])
                         else
                           let user = \<lparr>socketId = sid,
                                       username = js_or uname (auto_name rnd 0),
                                       joinedAt = now\<rparr>;
                               room' = room\<lparr>users := users room @ [user],
                                            lastActivity := now,
                                            expiresAt := now + ROOM_EXPIRY_TIME\<rparr>;
                               s1 = set_room c room' s;
                               s2 = socket_join sid c s1;
                               s3 = s2\<lparr>roomCode := (roomCode s2)(sid := Some c)\<rparr>
                           in logged (username user)
                                (Inr (s3,
                                   [({sid}, JoinedRoom c (username user)
                                              (length (users room')) (messages room')),
                                    (members s3 c - {sid},
                                       UserJoined (username user)
                                         (length (users room')))]))))
      | _ \<Rightarrow> Inr (s, [({sid}, ErrorEv msg_RoomNotFound)])))))"

subsection \<open>createRoom\<close>

definition createRoom ::
  "string \<Rightarrow> jsval \<Rightarrow> nat \<Rightarrow> (nat \<Rightarrow> nat) \<Rightarrow> state \<Rightarrow> fault + state \<times> emission list" where
  "createRoom sid data now rnd s =
     (case get_prop data ''username'' of Inl f \<Rightarrow> Inl f | Inr uname \<Rightarrow>
     (case generateUniqueRoomCode rnd s of
        None \<Rightarrow> Inl NoReturn
      | Some (code, k, s0) \<Rightarrow>
          let room0 = \<lparr>users = [], messages = [], createdAt = now,
                       expiresAt = now + ROOM_EXPIRY_TIME, lastActivity = now,
                       inVoiceChat = None\<rparr>;
              s1 = set_room code room0 s0;
              user = \<lparr>socketId = sid,
                      username = js_or uname (auto_name rnd k),
                      joinedAt = now\<rparr>;
              room' = room0\<lparr>users := users room0 @ [user],
                            lastActivity := now,
                            expiresAt := now + ROOM_EXPIRY_TIME\<rparr>;
              s2 = set_room code room' s1;
              s3 = socket_join sid code s2;
              s4 = s3\<lparr>roomCode := (roomCode s3)(sid := Some code)\<rparr>
          in logged (username user)
               (Inr (s4,
                  [({sid}, JoinedRoom code (username user) (length (users room'))
                             (messages room'))]))))"

subsection \<open>sendMessage\<close>

text \<open>
  \<open>roomCode && rooms.has(roomCode)\<close>: the socket's room tag, when it is truthy and names
  an active room.
\<close>

definition active_room :: "string \<Rightarrow> state \<Rightarrow> string option" where
  "active_room sid s =
     (case roomCode s sid of
        None \<Rightarrow> None
      | Some rc \<Rightarrow> if rc \<noteq> [] \<and> has_room (rooms s) rc then Some rc else None)"

definition sendMessage ::
  "string \<Rightarrow> jsval \<Rightarrow> nat \<Rightarrow> (nat \<Rightarrow> nat) \<Rightarrow> state \<Rightarrow> fault + state \<times> emission list" where
  "sendMessage sid data now rnd s =
     (case get_prop data ''message'' of Inl f \<Rightarrow> Inl f | Inr msg \<Rightarrow>
     (case active_room sid s of
        None \<Rightarrow> Inr (s, [({sid}, ErrorEv msg_NotInRoom)])
      | Some rc \<Rightarrow>
          (case map_of (rooms s) rc of
             None \<Rightarrow> Inr (s, [({sid}, ErrorEv msg_NotInRoom)])
           | Some room \<Rightarrow>
               (case find (\<lambda>u. socketId u = sid) (users room) of
                  None \<Rightarrow> Inr (s, [({sid}, ErrorEv msg_ParticipantNotFound)])
                | Some user \<Rightarrow>
                    (case msg of
                       JStr text \<Rightarrow>
                         let messageObj = \<lparr>msg_id = (now, rnd 0),
                                           msg_username = username user,
                                           msg_text = trim text,
                                           msg_timestamp = now,
                                           msg_socketId = sid\<rparr>;
                             room' = room\<lparr>messages := messages room @ [messageObj],
                                          lastActivity := now,
                                          expiresAt := now + ROOM_EXPIRY_TIME\<rparr>;
                             s1 = set_room rc room' s
                         in Inr (s1, [(members s1 rc, NewMessage messageObj)])
                     | _ \<Rightarrow> Inl TypeError)))))"

subsection \<open>typing\<close>

definition typing :: "string \<Rightarrow> jsval \<Rightarrow> state \<Rightarrow> fault + state \<times> emission list" where
  "typing sid data s =
     (case roomCode s sid of
        None \<Rightarrow> Inr (s, [])
      | Some rc \<Rightarrow>
          if rc = [] then Inr (s, [])
          else (case get_prop data ''username'' of Inl f \<Rightarrow> Inl f | Inr un \<Rightarrow>
               (case get_prop data ''isTyping'' of Inl f \<Rightarrow> Inl f | Inr it \<Rightarrow>
                 Inr (s, [(members s rc - {sid}, UserTyping un it)]))))"

subsection \<open>disconnect and leaveRoom\<close>

fun findIndex :: "('a \<Rightarrow> bool) \<Rightarrow> 'a list \<Rightarrow> nat option" where
  "findIndex P [] = None"
| "findIndex P (x # xs) = (if P x then Some 0 else map_option Suc (findIndex P xs))"

text \<open>\<open>xs.splice(i, 1)\<close>.\<close>

definition splice1 :: "nat \<Rightarrow> 'a list \<Rightarrow> 'a list" where
  "splice1 i xs = take i xs @ drop (Suc i) xs"

text \<open>The clean-up of an emptied room, shared by both handlers.\<close>

definition cleanup_empty :: "string \<Rightarrow> room \<Rightarrow> state \<Rightarrow> state" where
  "cleanup_empty rc room s =
     (if length (users room) = 0
      then let s1 = set_room rc (room\<lparr>messages := []\<rparr>) s;
               s2 = s1\<lparr>rooms := AList.delete rc (rooms s1)\<rparr>
           in s2\<lparr>usedCodes := usedCodes s2 - {rc}\<rparr>
      else s)"

text \<open>
  The two ledger entries of a departure; \<open>shown\<close> is the display name of the departed
  participant as a string.
\<close>

definition record_left :: "string \<Rightarrow> string \<Rightarrow> string \<Rightarrow> state \<Rightarrow> state" where
  "record_left sid shown rc s =
     (let userSessionKey = session_key sid rc;
          usernameSessionKey = session_key shown rc
      in s\<lparr>userSessions := insert userSessionKey (userSessions s),
            usernameSessions := insert usernameSessionKey (usernameSessions s)\<rparr>)"

definition disconnect :: "string \<Rightarrow> state \<Rightarrow> fault + state \<times> emission list" where
  "disconnect sid s =
     (case active_room sid s of
        None \<Rightarrow> Inr (s, [])
      | Some rc \<Rightarrow>
          (case map_of (rooms s) rc of
             None \<Rightarrow> Inr (s, [])
           | Some room \<Rightarrow>
               (case findIndex (\<lambda>u. socketId u = sid) (users room) of
                  None \<Rightarrow> Inr (s, [])
                | Some userIndex \<Rightarrow>
                    let user = users room ! userIndex;
                        room' = room\<lparr>users := splice1 userIndex (users room)\<rparr>;
                        s1 = set_room rc room' s
                    in (case js_to_string (username user) of
                          Inl f \<Rightarrow> Inl f
                        | Inr shown \<Rightarrow>
                            let s2 = record_left sid shown rc s1;
                                out = [(members s2 rc - {sid},
                                          UserLeft (username user) (length (users room')))]
                            in Inr (cleanup_empty rc room' s2, out)))))"

definition leaveRoom :: "string \<Rightarrow> state \<Rightarrow> fault + state \<times> emission list" where
  "leaveRoom sid s =
     (case active_room sid s of
        None \<Rightarrow> Inr (s, [])
      | Some rc \<Rightarrow>
          (case map_of (rooms s) rc of
             None \<Rightarrow> Inr (s, [])
           | Some room \<Rightarrow>
               (case findIndex (\<lambda>u. socketId u = sid) (users room) of
                  None \<Rightarrow> Inr (s, [])
                | Some userIndex \<Rightarrow>
                    let user = users room ! userIndex;
                        room' = room\<lparr>users := splice1 userIndex (users room)\<rparr>;
                        s1 = set_room rc room' s;
                        s2 = socket_leave sid rc s1;
                        s3 = s2\<lparr>roomCode := (roomCode s2)(sid := None)\<rparr>
                    in (case js_to_string (username user) of
                          Inl f \<Rightarrow> Inl f
                        | Inr shown \<Rightarrow>
                            let s4 = record_left sid shown rc s3;
                                out = [(members s4 rc - {sid},
                                          UserLeft (username user) (length (users room'))),
                                       ({sid}, LeftRoom)]
                            in Inr (cleanup_empty rc room' s4, out)))))"

subsection \<open>Signaling relay\<close>

definition voiceChatOffer :: "string \<Rightarrow> jsval \<Rightarrow> state \<Rightarrow> fault + state \<times> emission list" where
  "voiceChatOffer sid data s =
     (case active_room sid s of
        None \<Rightarrow> Inr (s, [])
      | Some rc \<Rightarrow> Inr (s, [(members s rc - {sid}, OutVoiceChatOffer data)]))"

definition voiceChatAnswer :: "string \<Rightarrow> jsval \<Rightarrow> state \<Rightarrow> fault + state \<times> emission list" where
  "voiceChatAnswer sid data s =
     (case active_room sid s of
        None \<Rightarrow> Inr (s, [])
      | Some rc \<Rightarrow> Inr (s, [(members s rc - {sid}, OutVoiceChatAnswer data)]))"

definition iceCandidate :: "string \<Rightarrow> jsval \<Rightarrow> state \<Rightarrow> fault + state \<times> emission list" where
  "iceCandidate sid data s =
     (case active_room sid s of
        None \<Rightarrow> Inr (s, [])
      | Some rc \<Rightarrow> Inr (s, [(members s rc - {sid}, OutIceCandidate data)]))"

definition set_voice :: "bool \<Rightarrow> string \<Rightarrow> state \<Rightarrow> state" where
  "set_voice b rc s =
     (case map_of (rooms s) rc of
        None \<Rightarrow> s
      | Some room \<Rightarrow> set_room rc (room\<lparr>inVoiceChat := Some b\<rparr>) s)"

definition startVoiceChat :: "string \<Rightarrow> state \<Rightarrow> fault + state \<times> emission list" where
  "startVoiceChat sid s =
     (case active_room sid s of
        None \<Rightarrow> Inr (s, [])
      | Some rc \<Rightarrow>
          let s1 = set_voice True rc s
          in Inr (s1, [(members s1 rc - {sid}, VoiceChatStarted)]))"

definition endVoiceChat :: "string \<Rightarrow> state \<Rightarrow> fault + state \<times> emission list" where
  "endVoiceChat sid s =
     (case active_room sid s of
        None \<Rightarrow> Inr (s, [])
      | Some rc \<Rightarrow>
          let s1 = set_voice False rc s
          in Inr (s1, [(members s1 rc - {sid}, VoiceChatEnded)]))"

section \<open>Expiry sweep\<close>

text \<open>
  The \<open>for ... of rooms.entries()\<close> loop of the timer, over the entries in insertion
  order; only the entry being visited is ever deleted.
\<close>

fun sweep_loop ::
  "nat \<Rightarrow> (string \<times> room) list \<Rightarrow> state \<Rightarrow> emission list \<Rightarrow> state \<times> emission list" where
  "sweep_loop now [] s out = (s, out)"
| "sweep_loop now ((code, room) # rest) s out =
     (if now > expiresAt room
      then sweep_loop now rest
             (s\<lparr>rooms := AList.delete code (rooms s), usedCodes := usedCodes s - {code}\<rparr>)
             (out @ [(members s code, RoomExpired)])
      else sweep_loop now rest s out)"

definition sweep :: "nat \<Rightarrow> state \<Rightarrow> state \<times> emission list" where
  "sweep now s = sweep_loop now (rooms s) s []"

section \<open>The server as a transition system\<close>

datatype event =
    EvJoinRoom string jsval
  | EvCreateRoom string jsval
  | EvSendMessage string jsval
  | EvTyping string jsval
  | EvDisconnect string
  | EvLeaveRoom string
  | EvVoiceChatOffer string jsval
  | EvVoiceChatAnswer string jsval
  | EvIceCandidate string jsval
  | EvStartVoiceChat string
  | EvEndVoiceChat string
  | EvSweep
  | EvGenerateRoomCode

text \<open>
  When a socket closes, the transport first removes it from every broadcast group and
  then runs the \<open>disconnect\<close> handler.
\<close>

definition close_socket :: "string \<Rightarrow> state \<Rightarrow> state" where
  "close_socket sid s =
     s\<lparr>members := (\<lambda>g. members s g - {sid}), disconnected := insert sid (disconnected s)\<rparr>"

definition generateRoomCode :: "(nat \<Rightarrow> nat) \<Rightarrow> state \<Rightarrow> fault + state \<times> emission list" where
  "generateRoomCode rnd s =
     (case generateUniqueRoomCode rnd s of
        None \<Rightarrow> Inl NoReturn
      | Some (code, k, s1) \<Rightarrow> Inr (s1, [({}, CodeResponse code)]))"

fun sender :: "event \<Rightarrow> string option" where
  "sender (EvJoinRoom sid d) = Some sid"
| "sender (EvCreateRoom sid d) = Some sid"
| "sender (EvSendMessage sid d) = Some sid"
| "sender (EvTyping sid d) = Some sid"
| "sender (EvDisconnect sid) = Some sid"
| "sender (EvLeaveRoom sid) = Some sid"
| "sender (EvVoiceChatOffer sid d) = Some sid"
| "sender (EvVoiceChatAnswer sid d) = Some sid"
| "sender (EvIceCandidate sid d) = Some sid"
| "sender (EvStartVoiceChat sid) = Some sid"
| "sender (EvEndVoiceChat sid) = Some sid"
| "sender EvSweep = None"
| "sender EvGenerateRoomCode = None"

fun dispatch ::
  "event \<Rightarrow> nat \<Rightarrow> (nat \<Rightarrow> nat) \<Rightarrow> state \<Rightarrow> fault + state \<times> emission list" where
  "dispatch (EvJoinRoom sid d) now rnd s = joinRoom sid d now rnd s"
| "dispatch (EvCreateRoom sid d) now rnd s = createRoom sid d now rnd s"
| "dispatch (EvSendMessage sid d) now rnd s = sendMessage sid d now rnd s"
| "dispatch (EvTyping sid d) now rnd s = typing sid d s"
| "dispatch (EvDisconnect sid) now rnd s = disconnect sid (close_socket sid s)"
| "dispatch (EvLeaveRoom sid) now rnd s = leaveRoom sid s"
| "dispatch (EvVoiceChatOffer sid d) now rnd s = voiceChatOffer sid d s"
| "dispatch (EvVoiceChatAnswer sid d) now rnd s = voiceChatAnswer sid d s"
| "dispatch (EvIceCandidate sid d) now rnd s = iceCandidate sid d s"
| "dispatch (EvStartVoiceChat sid) now rnd s = startVoiceChat sid s"
| "dispatch (EvEndVoiceChat sid) now rnd s = endVoiceChat sid s"
| "dispatch EvSweep now rnd s = Inr (sweep now s)"
| "dispatch EvGenerateRoomCode now rnd s = generateRoomCode rnd s"

text \<open>
  One unit of work: an inbound event with the clock reading and the random oracle of
  its handler; \<open>now\<close> stands for every \<open>Date.now()\<close> of one handler run. A closed
  socket delivers no events.
\<close>

definition step ::
  "event \<times> nat \<times> (nat \<Rightarrow> nat) \<Rightarrow> state \<Rightarrow> fault + state \<times> emission list" where
  "step e s =
     (case e of (ev, now, rnd) \<Rightarrow>
        (case sender ev of
           Some sid \<Rightarrow> if sid \<in> disconnected s then Inr (s, []) else dispatch ev now rnd s
         | None \<Rightarrow> dispatch ev now rnd s))"

text \<open>A run stops at the first handler that throws or never returns.\<close>

fun run ::
  "(event \<times> nat \<times> (nat \<Rightarrow> nat)) list \<Rightarrow> state \<Rightarrow> fault + state \<times> emission list" where
  "run [] s = Inr (s, [])"
| "run (e # es) s =
     (case step e s of
        Inl f \<Rightarrow> Inl f
      | Inr (s1, out1) \<Rightarrow>
          (case run es s1 of
             Inl f \<Rightarrow> Inl f
           | Inr (s2, out2) \<Rightarrow> Inr (s2, out1 @ out2)))"

section \<open>Consistency of the process state\<close>

text \<open>A computation returns when it neither throws nor runs forever.\<close>

definition returns :: "fault + 'a \<Rightarrow> bool" where
  "returns r = (case r of Inl f \<Rightarrow> False | Inr x \<Rightarrow> True)"

text \<open>
  What holds of a room in every state the server can reach: its code is a four-digit
  string held in \<open>usedCodes\<close>, it has at most two participants with distinct socket
  ids and with display names that are truthy and have a string form, and every
  participant whose socket has not closed is subscribed to the room's broadcast group.
\<close>

definition room_inv :: "state \<Rightarrow> string \<Rightarrow> room \<Rightarrow> bool" where
  "room_inv s c r \<longleftrightarrow>
     four_digits c \<and> c \<in> usedCodes s \<and> length (users r) \<le> 2 \<and>
     distinct (map socketId (users r)) \<and>
     (\<forall>u \<in> set (users r). truthy (username u) \<and> returns (js_to_string (username u)) \<and>
        (socketId u \<in> members s c \<or> socketId u \<in> disconnected s))"

definition consistent :: "state \<Rightarrow> bool" where
  "consistent s \<longleftrightarrow>
     distinct (map fst (rooms s)) \<and>
     (\<forall>c r. map_of (rooms s) c = Some r \<longrightarrow> room_inv s c r)"

text \<open>The entries of a room list whose expiry deadline has passed at time \<open>now\<close>.\<close>

definition expired :: "nat \<Rightarrow> (string \<times> room) list \<Rightarrow> (string \<times> room) list" where
  "expired now es = [p \<leftarrow> es. now > expiresAt (snd p)]"



section \<open>Concrete scenarios\<close>

text \<open>A random oracle whose every draw is \<open>0\<close>: every room code is \<open>0000\<close>.\<close>

definition rnd0 :: "nat \<Rightarrow> nat" where
  "rnd0 = (\<lambda>_. 0)"

text \<open>Socket \<open>A\<close> creates a room as Ann; socket \<open>B\<close> joins it as Bob.\<close>

definition two_party_trace :: "(event \<times> nat \<times> (nat \<Rightarrow> nat)) list" where
  "two_party_trace =
     [(EvCreateRoom ''A'' (JObj [(''username'', JStr ''Ann'')]), 0, rnd0),
      (EvJoinRoom ''B'' (JObj [(''code'', JStr ''0000''), (''username'', JStr ''Bob'')]),
         1, rnd0)]"

definition two_party_room :: room where
  "two_party_room =
     \<lparr>users = [\<lparr>socketId = ''A'', username = JStr ''Ann'', joinedAt = 0\<rparr>,
               \<lparr>socketId = ''B'', username = JStr ''Bob'', joinedAt = 1\<rparr>],
      messages = [], createdAt = 0, expiresAt = 1 + ROOM_EXPIRY_TIME,
      lastActivity = 1, inVoiceChat = None\<rparr>"

definition two_party_state :: state where
  "two_party_state =
     \<lparr>rooms = [(''0000'', two_party_room)],
      usedCodes = {''0000''}, userSessions = {}, usernameSessions = {},
      roomCode = [''A'' \<mapsto> ''0000'', ''B'' \<mapsto> ''0000''],
      members = (\<lambda>_. {})(''0000'' := {''B'', ''A''}),
      disconnected = {}\<rparr>"

definition two_party_out :: "emission list" where
  "two_party_out =
     [({''A''}, JoinedRoom ''0000'' (JStr ''Ann'') 1 []),
      ({''B''}, JoinedRoom ''0000'' (JStr ''Bob'') 2 []),
      ({''A''}, UserJoined (JStr ''Bob'') 2)]"

text \<open>The state after one request to \<open>/generateRoomCode\<close>: a code is reserved, no room exists.\<close>

definition reserved_state :: state where
  "reserved_state = init\<lparr>usedCodes := {''0000''}\<rparr>"

text \<open>Socket \<open>A\<close> creates a room as Ann and then leaves it; the room is destroyed.\<close>

definition solo_trace :: "(event \<times> nat \<times> (nat \<Rightarrow> nat)) list" where
  "solo_trace = [(EvCreateRoom ''A'' (JObj [(''username'', JStr ''Ann'')]), 0, rnd0)]"

definition solo_room :: room where
  "solo_room =
     \<lparr>users = [\<lparr>socketId = ''A'', username = JStr ''Ann'', joinedAt = 0\<rparr>],
      messages = [], createdAt = 0, expiresAt = ROOM_EXPIRY_TIME,
      lastActivity = 0, inVoiceChat = None\<rparr>"

definition solo_state :: state where
  "solo_state =
     \<lparr>rooms = [(''0000'', solo_room)],
      usedCodes = {''0000''}, userSessions = {}, usernameSessions = {},
      roomCode = [''A'' \<mapsto> ''0000''],
      members = (\<lambda>_. {})(''0000'' := {''A''}),
      disconnected = {}\<rparr>"

definition solo_out :: "emission list" where
  "solo_out = [({''A''}, JoinedRoom ''0000'' (JStr ''Ann'') 1 [])]"



text \<open>In the two-party room, Bob sends a message at time 5.\<close>

definition hello_message :: message where
  "hello_message =
     \<lparr>msg_id = (5, 0), msg_username = JStr ''Bob'', msg_text = ''hello'',
      msg_timestamp = 5, msg_socketId = ''B''\<rparr>"

definition hello_state :: state where
  "hello_state =
     two_party_state\<lparr>rooms :=
       [(''0000'', two_party_room\<lparr>messages := [hello_message], lastActivity := 5,
                                  expiresAt := 5 + ROOM_EXPIRY_TIME\<rparr>)]\<rparr>"

text \<open>The two-party room is swept after its deadline.\<close>

definition swept_state :: state where
  "swept_state = two_party_state\<lparr>rooms := [], usedCodes := {}\<rparr>"

text \<open>Ann signals that she is typing, at time 1000, in the room she created at time 0.\<close>

definition typing_trace :: "(event \<times> nat \<times> (nat \<Rightarrow> nat)) list" where
  "typing_trace =
     solo_trace @ [(EvTyping ''A'' (JObj [(''isTyping'', JBool True)]), 1000, rnd0)]"

definition typing_out :: "emission list" where
  "typing_out = solo_out @ [({}, UserTyping JUndefined (JBool True))]"

text \<open>
  Ann's room expires and is swept; socket \<open>B\<close> then creates a room, which gets the same
  code.
\<close>

definition reuse_trace :: "(event \<times> nat \<times> (nat \<Rightarrow> nat)) list" where
  "reuse_trace =
     solo_trace @
     [(EvSweep, 700000, rnd0),
      (EvCreateRoom ''B'' (JObj [(''username'', JStr ''Bob'')]), 700001, rnd0)]"

definition reuse_room :: room where
  "reuse_room =
     \<lparr>users = [\<lparr>socketId = ''B'', username = JStr ''Bob'', joinedAt = 700001\<rparr>],
      messages = [], createdAt = 700001, expiresAt = 700001 + ROOM_EXPIRY_TIME,
      lastActivity = 700001, inVoiceChat = None\<rparr>"

definition reuse_state :: state where
  "reuse_state =
     \<lparr>rooms = [(''0000'', reuse_room)],
      usedCodes = {''0000''}, userSessions = {}, usernameSessions = {},
      roomCode = [''A'' \<mapsto> ''0000'', ''B'' \<mapsto> ''0000''],
      members = (\<lambda>_. {})(''0000'' := {''B'', ''A''}),
      disconnected = {}\<rparr>"

definition reuse_out :: "emission list" where
  "reuse_out =
     [({''A''}, JoinedRoom ''0000'' (JStr ''Ann'') 1 []),
      ({''A''}, RoomExpired),
      ({''B''}, JoinedRoom ''0000'' (JStr ''Bob'') 1 [])]"



text \<open>
  Socket \<open>B\<close> joins Ann's room without a display name and is named \<open>User0\<close>; it leaves
  at time 2.
\<close>

definition guest_trace :: "(event \<times> nat \<times> (nat \<Rightarrow> nat)) list" where
  "guest_trace =
     solo_trace @ [(EvJoinRoom ''B'' (JObj [(''code'', JStr ''0000'')]), 1, rnd0)]"

definition guest_room :: room where
  "guest_room =
     \<lparr>users = [\<lparr>socketId = ''A'', username = JStr ''Ann'', joinedAt = 0\<rparr>,
               \<lparr>socketId = ''B'', username = JStr ''User0'', joinedAt = 1\<rparr>],
      messages = [], createdAt = 0, expiresAt = 1 + ROOM_EXPIRY_TIME,
      lastActivity = 1, inVoiceChat = None\<rparr>"

definition guest_state :: state where
  "guest_state = two_party_state\<lparr>rooms := [(''0000'', guest_room)]\<rparr>"

definition guest_out :: "emission list" where
  "guest_out =
     solo_out @
     [({''B''}, JoinedRoom ''0000'' (JStr ''User0'') 2 []),
      ({''A''}, UserJoined (JStr ''User0'') 2)]"

definition guest_left_state :: state where
  "guest_left_state =
     \<lparr>rooms = [(''0000'', guest_room\<lparr>users :=
                  [\<lparr>socketId = ''A'', username = JStr ''Ann'', joinedAt = 0\<rparr>]\<rparr>)],
      usedCodes = {''0000''},
      userSessions = {''B-0000''}, usernameSessions = {''User0-0000''},
      roomCode = [''A'' \<mapsto> ''0000''],
      members = (\<lambda>_. {})(''0000'' := {''A''}),
      disconnected = {}\<rparr>"

definition guest_left_out :: "emission list" where
  "guest_left_out = [({''A''}, UserLeft (JStr ''User0'') 1), ({''B''}, LeftRoom)]"

text \<open>
  After the guest has left, socket \<open>D\<close> joins under the display name \<open>anonymous\<close> at
  time 3 and leaves at time 4.
\<close>

definition anon_trace :: "(event \<times> nat \<times> (nat \<Rightarrow> nat)) list" where
  "anon_trace =
     guest_trace @
     [(EvLeaveRoom ''B'', 2, rnd0),
      (EvJoinRoom ''D'' (JObj [(''code'', JStr ''0000''), (''username'', JStr ''anonymous'')]),
         3, rnd0),
      (EvLeaveRoom ''D'', 4, rnd0)]"

definition anon_state :: state where
  "anon_state =
     \<lparr>rooms = [(''0000'', guest_room\<lparr>users :=
                  [\<lparr>socketId = ''A'', username = JStr ''Ann'', joinedAt = 0\<rparr>],
                  lastActivity := 3, expiresAt := 3 + ROOM_EXPIRY_TIME\<rparr>)],
      usedCodes = {''0000''},
      userSessions = {''D-0000'', ''B-0000''},
      usernameSessions = {''anonymous-0000'', ''User0-0000''},
      roomCode = [''A'' \<mapsto> ''0000''],
      members = (\<lambda>_. {})(''0000'' := {''A''}),
      disconnected = {}\<rparr>"

definition anon_out :: "emission list" where
  "anon_out =
     guest_out @ guest_left_out @
     [({''D''}, JoinedRoom ''0000'' (JStr ''anonymous'') 2 []),
      ({''A''}, UserJoined (JStr ''anonymous'') 2),
      ({''A''}, UserLeft (JStr ''anonymous'') 1),
      ({''D''}, LeftRoom)]"





section \<open>Properties of the code allocator\<close>

lemma is_digit_digit_char: "is_digit (digit_char d)"
  unfolding is_digit_def digit_char_def
  by (rule nth_mem) simp

lemma list_all_digit_dec: "list_all is_digit (dec n)"
proof (induction n rule: dec.induct)
  case (1 n)
  show ?case
  proof (cases "n < 10")
    case True
    then show ?thesis by (simp add: dec.simps [of n] is_digit_digit_char)
  next
    case False
    with 1 show ?thesis by (simp add: dec.simps [of n] is_digit_digit_char)
  qed
qed

lemma length_dec: "n < 10 ^ k \<Longrightarrow> 0 < k \<Longrightarrow> length (dec n) \<le> k"
proof (induction n arbitrary: k rule: dec.induct)
  case (1 n)
  show ?case
  proof (cases "n < 10")
    case True
    with 1(3) show ?thesis by (simp add: dec.simps [of n] Suc_leI)
  next
    case False
    then obtain j where k: "k = Suc j" using 1(3) by (cases k) auto
    with False 1(2) have j: "0 < j" by (cases j) auto
    from 1(2) k have "n div 10 < 10 ^ j"
      by (simp add: less_mult_imp_div_less mult.commute)
    with 1(1) [OF False _ j] have "length (dec (n div 10)) \<le> j" by simp
    with False k show ?thesis by (simp add: dec.simps [of n])
  qed
qed

lemma four_digits_random_code: "four_digits (random_code rnd i)"
proof -
  have "rnd i mod 10000 < 10 ^ 4" by simp
  then have "length (dec (rnd i mod 10000)) \<le> 4" by (rule length_dec) simp
  moreover have "list_all is_digit (replicate m (CHR ''0''))" for m
    by (simp add: list_all_iff is_digit_def)
  ultimately show ?thesis
    by (simp add: four_digits_def random_code_def padStart4_def list_all_digit_dec)
qed

lemma first_loop_stop:
  "\<not> (random_code rnd a \<in> used \<and> a + 1 < maxAttempts) \<Longrightarrow>
   first_loop rnd used a = (random_code rnd a, a + 1)"
  by (subst first_loop.simps) (auto simp: Let_def)

lemma first_loop_collide:
  "attempts < maxAttempts \<Longrightarrow>
   (\<forall>i. attempts \<le> i \<and> i < maxAttempts - 1 \<longrightarrow> random_code rnd i \<in> used) \<Longrightarrow>
   first_loop rnd used attempts = (random_code rnd (maxAttempts - 1), maxAttempts)"
proof (induction rnd used attempts rule: first_loop.induct)
  case (1 rnd used attempts)
  show ?case
  proof (cases "attempts + 1 < maxAttempts")
    case True
    then have "random_code rnd attempts \<in> used" using 1(3) by simp
    with True 1 show ?thesis
      by (subst first_loop.simps) (simp add: Let_def)
  next
    case False
    with 1(2) have "attempts = maxAttempts - 1" by simp
    with False 1(2) show ?thesis
      by (subst first_loop.simps) (simp add: Let_def)
  qed
qed

lemma first_loop_result:
  "first_loop rnd used attempts = (code, k) \<Longrightarrow>
   attempts < k \<and> code = random_code rnd (k - 1) \<and>
   (k < maxAttempts \<longrightarrow> code \<notin> used) \<and>
   (\<forall>i. attempts \<le> i \<and> i < k - 1 \<longrightarrow> random_code rnd i \<in> used)"
proof (induction rnd used attempts rule: first_loop.induct)
  case (1 rnd used attempts)
  show ?case
  proof (cases "random_code rnd attempts \<in> used \<and> attempts + 1 < maxAttempts")
    case True
    with 1(2) have "first_loop rnd used (attempts + 1) = (code, k)"
      by (subst (asm) first_loop.simps) (simp add: Let_def)
    from 1(1) [OF refl refl True this]
    have ih: "attempts + 1 < k" "code = random_code rnd (k - 1)"
      "k < maxAttempts \<longrightarrow> code \<notin> used"
      "\<And>i. attempts + 1 \<le> i \<Longrightarrow> i < k - 1 \<Longrightarrow> random_code rnd i \<in> used"
      by auto
    have "random_code rnd i \<in> used" if "attempts \<le> i" "i < k - 1" for i
    proof (cases "i = attempts")
      case True
      with \<open>random_code rnd attempts \<in> used \<and> attempts + 1 < maxAttempts\<close>
      show ?thesis by simp
    next
      case False
      with that have "attempts + 1 \<le> i" by simp
      then show ?thesis using that(2) by (rule ih(4))
    qed
    with ih(1-3) show ?thesis by simp
  next
    case False
    then have "first_loop rnd used attempts = (random_code rnd attempts, attempts + 1)"
      by (rule first_loop_stop)
    with 1(2) have "code = random_code rnd attempts" "k = attempts + 1"
      by simp_all
    with False show ?thesis by auto
  qed
qed

lemma first_loop_free:
  "random_code rnd i \<notin> used \<Longrightarrow> attempts \<le> i \<Longrightarrow> i < maxAttempts - 1 \<Longrightarrow>
   snd (first_loop rnd used attempts) < maxAttempts"
proof (induction rnd used attempts rule: first_loop.induct)
  case (1 rnd used attempts)
  show ?case
  proof (cases "random_code rnd attempts \<in> used \<and> attempts + 1 < maxAttempts")
    case True
    with 1(2) have "attempts \<noteq> i" by auto
    with 1(3) have "attempts + 1 \<le> i" by simp
    from 1(1) [OF refl refl True 1(2) this 1(4)] True show ?thesis
      by (subst first_loop.simps) (simp add: Let_def)
  next
    case False
    with 1(3,4) have "random_code rnd attempts \<notin> used" by auto
    with 1(3,4) show ?thesis
      by (subst first_loop.simps) (simp add: Let_def)
  qed
qed

lemma fallback_loop_result_aux:
  assumes "fallback_loop rnd rs i = Some y"
  shows "i < snd y \<and> fst y = random_code rnd (snd y - 1) \<and> \<not> has_room rs (fst y)"
proof (rule fallback_loop.raw_induct
    [where P = "\<lambda>rnd rs i y. i < snd y \<and> fst y = random_code rnd (snd y - 1) \<and>
                  \<not> has_room rs (fst y)"], goal_cases)
  case (1 f rnd rs i y)
  show ?case
  proof (cases "has_room rs (random_code rnd i)")
    case True
    with 1(2) have "f rnd rs (i + 1) = Some y" by (simp add: Let_def)
    from 1(1) [OF this] show ?thesis by auto
  next
    case False
    with 1(2) show ?thesis by (auto simp: Let_def)
  qed
next
  case 2
  show ?case by (rule assms)
qed

lemma fallback_loop_result:
  "fallback_loop rnd rs i = Some (code, k) \<Longrightarrow>
   i < k \<and> code = random_code rnd (k - 1) \<and> \<not> has_room rs code"
  by (drule fallback_loop_result_aux) auto

lemma fallback_loop_returns:
  "\<not> has_room rs (random_code rnd j) \<Longrightarrow> i \<le> j \<Longrightarrow> fallback_loop rnd rs i \<noteq> None"
proof (induction "j - i" arbitrary: i)
  case 0
  then have "i = j" by simp
  with 0 show ?case by (subst fallback_loop.simps) (simp add: Let_def)
next
  case (Suc d)
  then have "d = j - (i + 1)" "i + 1 \<le> j" by auto
  from Suc(1) [OF this(1) Suc(3) this(2)] show ?case
    by (subst fallback_loop.simps) (simp add: Let_def)
qed

lemma first_loop_bound:
  "attempts < maxAttempts \<Longrightarrow> snd (first_loop rnd used attempts) \<le> maxAttempts"
proof (induction rnd used attempts rule: first_loop.induct)
  case (1 rnd used attempts)
  show ?case
  proof (cases "random_code rnd attempts \<in> used \<and> attempts + 1 < maxAttempts")
    case True
    from 1(1) [OF refl refl True] True show ?thesis
      by (subst first_loop.simps) (simp add: Let_def)
  next
    case False
    from first_loop_stop [OF this] 1(2) show ?thesis by simp
  qed
qed

lemma generateUniqueRoomCode_Some:
  assumes "generateUniqueRoomCode rnd s = Some (code, k, s0)"
  shows "s0 = s\<lparr>usedCodes := insert code (usedCodes s)\<rparr> \<and> four_digits code \<and>
         (k < maxAttempts \<longrightarrow> code \<notin> usedCodes s) \<and>
         (maxAttempts \<le> k \<longrightarrow> \<not> has_room (rooms s) code)"
proof -
  obtain c a where fl: "first_loop rnd (usedCodes s) 0 = (c, a)"
    by (cases "first_loop rnd (usedCodes s) 0")
  note r = first_loop_result [OF fl]
  show ?thesis
  proof (cases "maxAttempts \<le> a")
    case True
    with assms fl obtain fc where
      fb: "fallback_loop rnd (rooms s) a = Some (fc, k)" and
      eq: "code = fc" "s0 = s\<lparr>usedCodes := insert fc (usedCodes s)\<rparr>"
      by (auto simp: generateUniqueRoomCode_def split: option.splits)
    from fallback_loop_result [OF fb] True eq show ?thesis
      by (auto simp: four_digits_random_code)
  next
    case False
    with assms fl have "code = c" "k = a" "s0 = s\<lparr>usedCodes := insert c (usedCodes s)\<rparr>"
      by (auto simp: generateUniqueRoomCode_def)
    with r False show ?thesis by (auto simp: four_digits_random_code)
  qed
qed

lemma generateUniqueRoomCode_returns:
  assumes "(\<exists>i < maxAttempts - 1. random_code rnd i \<notin> usedCodes s) \<or>
           (\<exists>j \<ge> maxAttempts. \<not> has_room (rooms s) (random_code rnd j))"
  shows "generateUniqueRoomCode rnd s \<noteq> None"
proof -
  obtain c a where fl: "first_loop rnd (usedCodes s) 0 = (c, a)"
    by (cases "first_loop rnd (usedCodes s) 0")
  show ?thesis
  proof (cases "maxAttempts \<le> a")
    case False
    with fl show ?thesis by (simp add: generateUniqueRoomCode_def)
  next
    case True
    have "\<not> (\<exists>i < maxAttempts - 1. random_code rnd i \<notin> usedCodes s)"
    proof
      assume "\<exists>i < maxAttempts - 1. random_code rnd i \<notin> usedCodes s"
      then obtain i where "i < maxAttempts - 1" "random_code rnd i \<notin> usedCodes s" by blast
      from first_loop_free [OF this(2) _ this(1), of 0] fl True show False by simp
    qed
    with assms obtain j where j: "maxAttempts \<le> j" "\<not> has_room (rooms s) (random_code rnd j)"
      by blast
    from first_loop_bound [of 0 rnd "usedCodes s"] fl have "a \<le> maxAttempts"
      by (simp add: maxAttempts_def)
    with True j have "a \<le> j" by simp
    from fallback_loop_returns [OF j(2) this] fl True show ?thesis
      by (auto simp: generateUniqueRoomCode_def split: option.splits)
  qed
qed

section \<open>Effects of the handlers\<close>

subsection \<open>Payload values\<close>

lemma truthy_auto_name: "truthy (auto_name rnd i)"
  by (simp add: auto_name_def)

lemma truthy_js_or: "truthy b \<Longrightarrow> truthy (js_or a b)"
  by (simp add: js_or_def)



lemma get_prop_Inr_any: "get_prop data k = Inr v \<Longrightarrow> \<exists>w. get_prop data k' = Inr w"
  by (cases data) auto

lemma get_prop_present:
  "data \<noteq> JUndefined \<Longrightarrow> data \<noteq> JNull \<Longrightarrow> \<exists>v. get_prop data k = Inr v"
  by (cases data) auto

lemma returns_Inr [simp]: "returns (Inr x)"
  by (simp add: returns_def)

lemma returns_Inl [simp]: "\<not> returns (Inl f)"
  by (simp add: returns_def)

lemma returns_iff: "returns r \<longleftrightarrow> (\<exists>x. r = Inr x)"
  by (cases r) simp_all

lemma logged_Inr: "logged v r = Inr x \<longleftrightarrow> returns (js_to_string v) \<and> r = Inr x"
  by (auto simp: logged_def split: sum.splits)

lemma logged_returns: "returns (js_to_string v) \<Longrightarrow> logged v r = r"
  by (auto simp: logged_def split: sum.splits)

lemma returns_js_to_string_auto_name: "returns (js_to_string (auto_name rnd i))"
  by (simp add: auto_name_def)

lemma returns_js_to_string_falsy: "\<not> truthy v \<Longrightarrow> returns (js_to_string v)"
  by (cases v) auto

lemma collect_Inl: "collect xs = Inl f \<Longrightarrow> Inl f \<in> set xs"
  by (induction xs) (auto split: sum.splits)

lemma js_to_string_fault: "js_to_string v = Inl f \<Longrightarrow> f = TypeError"
proof (induction v arbitrary: f rule: js_to_string.induct)
  case (6 xs)
  from 6(2) have "collect (map (\<lambda>x. if x = JUndefined \<or> x = JNull then Inr []
                                else js_to_string x) xs) = Inl f"
    by (simp split: sum.splits)
  from collect_Inl [OF this] obtain x where
    x: "x \<in> set xs" "(if x = JUndefined \<or> x = JNull then Inr [] else js_to_string x) = Inl f"
    by auto
  then have "\<not> (x = JUndefined \<or> x = JNull)" "js_to_string x = Inl f"
    by (auto split: if_splits)
  with x(1) show ?case by (rule 6(1))
qed (auto split: if_splits)

lemma code_test_JStr: "code_test (JStr c) = Inr (four_digits c)"
  by (simp add: code_test_def)

lemma code_test_Inr: "code_test v = Inr b \<longleftrightarrow> (\<exists>t. js_to_string v = Inr t \<and> b = four_digits t)"
  by (auto simp: code_test_def split: sum.splits)

subsection \<open>Participant lists\<close>

lemma has_user_iff: "has_user sid r \<longleftrightarrow> sid \<in> socketId ` set (users r)"
  by (auto simp: has_user_def find_None_iff)

lemma findIndex_Some:
  "findIndex P xs = Some i \<Longrightarrow> i < length xs \<and> P (xs ! i) \<and> (\<forall>j < i. \<not> P (xs ! j))"
proof (induction xs arbitrary: i)
  case Nil
  then show ?case by simp
next
  case (Cons x xs)
  show ?case
  proof (cases "P x")
    case True
    with Cons.prems show ?thesis by simp
  next
    case False
    with Cons.prems obtain k where k: "findIndex P xs = Some k" "i = Suc k" by auto
    from Cons.IH [OF k(1)] False k(2) show ?thesis
      by (auto simp: nth_Cons split: nat.splits)
  qed
qed

lemma find_findIndex:
  "find P xs = Some x \<Longrightarrow> \<exists>i. findIndex P xs = Some i \<and> xs ! i = x"
  by (induction xs) (auto split: if_splits)

lemma set_splice1: "set (splice1 i xs) \<subseteq> set xs"
  by (auto simp: splice1_def dest: in_set_takeD in_set_dropD)

lemma length_splice1: "i < length xs \<Longrightarrow> length (splice1 i xs) = length xs - 1"
  by (auto simp: splice1_def)

lemma splice1_split:
  "i < length xs \<Longrightarrow> xs = take i xs @ (xs ! i) # drop (Suc i) xs"
  by (simp add: id_take_nth_drop)

lemma distinct_splice1:
  assumes "distinct (map f xs)" "i < length xs"
  shows "distinct (map f (splice1 i xs)) \<and> f (xs ! i) \<notin> f ` set (splice1 i xs)"
proof -
  from assms(2) have "xs = take i xs @ (xs ! i) # drop (Suc i) xs" by (rule splice1_split)
  then have "distinct (map f (take i xs @ (xs ! i) # drop (Suc i) xs))"
    using assms(1) by simp
  then show ?thesis by (auto simp: splice1_def)
qed

subsection \<open>What a handler that returns has done\<close>

lemma joinRoom_Inr:
  assumes "joinRoom sid data now rnd s = Inr (s', out)"
  shows "s' = s \<or>
    (\<exists>c room uname.
       get_prop data ''code'' = Inr (JStr c) \<and> get_prop data ''username'' = Inr uname \<and>
       four_digits c \<and> map_of (rooms s) c = Some room \<and> length (users room) < 2 \<and>
       \<not> has_user sid room \<and>
       returns (js_to_string (js_or uname (auto_name rnd 0))) \<and>
       s' = s\<lparr>rooms := AList.update c
                 (room\<lparr>users := users room @
                          [\<lparr>socketId = sid, username = js_or uname (auto_name rnd 0),
                            joinedAt = now\<rparr>],
                       lastActivity := now,
                       expiresAt := now + ROOM_EXPIRY_TIME\<rparr>) (rooms s),
               members := (members s)(c := insert sid (members s c)),
               roomCode := (roomCode s)(sid := Some c)\<rparr>)"
  using assms
  by (auto simp: joinRoom_def Let_def set_room_def socket_join_def code_test_JStr logged_Inr
      split: sum.splits jsval.splits option.splits if_splits)

lemma createRoom_Inr:
  assumes "createRoom sid data now rnd s = Inr (s', out)"
  shows "\<exists>uname code k.
       get_prop data ''username'' = Inr uname \<and>
       generateUniqueRoomCode rnd s =
         Some (code, k, s\<lparr>usedCodes := insert code (usedCodes s)\<rparr>) \<and>
       s' = s\<lparr>usedCodes := insert code (usedCodes s),
               rooms := AList.update code
                 \<lparr>users = [\<lparr>socketId = sid, username = js_or uname (auto_name rnd k),
                             joinedAt = now\<rparr>],
                  messages = [], createdAt = now, expiresAt = now + ROOM_EXPIRY_TIME,
                  lastActivity = now, inVoiceChat = None\<rparr> (rooms s),
               members := (members s)(code := insert sid (members s code)),
               roomCode := (roomCode s)(sid := Some code)\<rparr> \<and>
       returns (js_to_string (js_or uname (auto_name rnd k))) \<and>
       out = [({sid}, JoinedRoom code (js_or uname (auto_name rnd k)) 1 [])]"
proof -
  from assms obtain uname code k s0 where
    u: "get_prop data ''username'' = Inr uname" and
    g: "generateUniqueRoomCode rnd s = Some (code, k, s0)"
    by (auto simp: createRoom_def split: sum.splits option.splits)
  from generateUniqueRoomCode_Some [OF g]
  have s0: "s0 = s\<lparr>usedCodes := insert code (usedCodes s)\<rparr>" by simp
  from assms u g show ?thesis
    by (simp add: createRoom_def Let_def set_room_def socket_join_def s0 update_last
        logged_Inr)
qed

lemma sendMessage_Inr:
  assumes "sendMessage sid data now rnd s = Inr (s', out)"
  shows "(s' = s \<and> (out = [({sid}, ErrorEv msg_NotInRoom)] \<or>
                     out = [({sid}, ErrorEv msg_ParticipantNotFound)])) \<or>
    (\<exists>rc room user body.
       roomCode s sid = Some rc \<and> rc \<noteq> [] \<and> map_of (rooms s) rc = Some room \<and>
       find (\<lambda>u. socketId u = sid) (users room) = Some user \<and>
       get_prop data ''message'' = Inr (JStr body) \<and>
       s' = s\<lparr>rooms := AList.update rc
                 (room\<lparr>messages := messages room @
                          [\<lparr>msg_id = (now, rnd 0), msg_username = username user,
                            msg_text = trim body, msg_timestamp = now,
                            msg_socketId = sid\<rparr>],
                       lastActivity := now,
                       expiresAt := now + ROOM_EXPIRY_TIME\<rparr>) (rooms s)\<rparr> \<and>
       out = [(members s rc,
               NewMessage \<lparr>msg_id = (now, rnd 0), msg_username = username user,
                            msg_text = trim body, msg_timestamp = now,
                            msg_socketId = sid\<rparr>)])"
  using assms
  by (auto simp: sendMessage_def active_room_def Let_def set_room_def
      split: sum.splits jsval.splits option.splits if_splits)

lemma map_of_cleanup_empty:
  "map_of (rooms (cleanup_empty rc r s)) =
     (if users r = [] then (map_of (rooms s))(rc := None) else map_of (rooms s))"
  by (simp add: cleanup_empty_def Let_def set_room_def delete_conv' update_conv')

lemma fields_cleanup_empty:
  "usedCodes (cleanup_empty rc r s) = (if users r = [] then usedCodes s - {rc} else usedCodes s)"
  "userSessions (cleanup_empty rc r s) = userSessions s"
  "usernameSessions (cleanup_empty rc r s) = usernameSessions s"
  "roomCode (cleanup_empty rc r s) = roomCode s"
  "members (cleanup_empty rc r s) = members s"
  "disconnected (cleanup_empty rc r s) = disconnected s"
  by (simp_all add: cleanup_empty_def Let_def set_room_def)

lemma distinct_cleanup_empty:
  "distinct (map fst (rooms s)) \<Longrightarrow> distinct (map fst (rooms (cleanup_empty rc r s)))"
  by (simp add: cleanup_empty_def Let_def set_room_def distinct_delete distinct_update)

lemma fields_record_left:
  "rooms (record_left sid u rc s) = rooms s"
  "usedCodes (record_left sid u rc s) = usedCodes s"
  "userSessions (record_left sid u rc s) = insert (session_key sid rc) (userSessions s)"
  "usernameSessions (record_left sid u rc s) =
     insert (session_key u rc) (usernameSessions s)"
  "roomCode (record_left sid u rc s) = roomCode s"
  "members (record_left sid u rc s) = members s"
  "disconnected (record_left sid u rc s) = disconnected s"
  by (simp_all add: record_left_def Let_def)

lemma leaveRoom_Inr:
  assumes "leaveRoom sid s = Inr (s', out)"
  shows "(s' = s \<and> out = []) \<or>
    (\<exists>rc room i shown.
       roomCode s sid = Some rc \<and> rc \<noteq> [] \<and> map_of (rooms s) rc = Some room \<and>
       findIndex (\<lambda>u. socketId u = sid) (users room) = Some i \<and>
       js_to_string (username (users room ! i)) = Inr shown \<and>
       s' = cleanup_empty rc (room\<lparr>users := splice1 i (users room)\<rparr>)
              (record_left sid shown rc
                 (s\<lparr>rooms := AList.update rc (room\<lparr>users := splice1 i (users room)\<rparr>)
                                (rooms s),
                     members := (members s)(rc := members s rc - {sid}),
                     roomCode := (roomCode s)(sid := None)\<rparr>)) \<and>
       out = [(members s rc - {sid},
                 UserLeft (username (users room ! i)) (length (splice1 i (users room)))),
              ({sid}, LeftRoom)])"
  using assms
  by (auto simp: leaveRoom_def active_room_def Let_def set_room_def socket_leave_def
      fields_record_left split: option.splits if_splits sum.splits)

lemma disconnect_Inr:
  assumes "disconnect sid s = Inr (s', out)"
  shows "(s' = s \<and> out = []) \<or>
    (\<exists>rc room i shown.
       roomCode s sid = Some rc \<and> rc \<noteq> [] \<and> map_of (rooms s) rc = Some room \<and>
       findIndex (\<lambda>u. socketId u = sid) (users room) = Some i \<and>
       js_to_string (username (users room ! i)) = Inr shown \<and>
       s' = cleanup_empty rc (room\<lparr>users := splice1 i (users room)\<rparr>)
              (record_left sid shown rc
                 (s\<lparr>rooms := AList.update rc (room\<lparr>users := splice1 i (users room)\<rparr>)
                                (rooms s)\<rparr>)) \<and>
       out = [(members s rc - {sid},
                 UserLeft (username (users room ! i)) (length (splice1 i (users room))))])"
  using assms
  by (auto simp: disconnect_def active_room_def Let_def set_room_def
      fields_record_left split: option.splits if_splits sum.splits)



lemma map_of_rooms_leave:
  assumes "map_of (rooms (cleanup_empty rc (room\<lparr>users := us\<rparr>)
             (record_left sid u rc (s\<lparr>rooms := AList.update rc (room\<lparr>users := us\<rparr>) (rooms s),
                members := m, roomCode := t\<rparr>)))) c = Some r'"
    and "map_of (rooms s) rc = Some room"
  shows "map_option expiresAt (map_of (rooms s) c) = Some (expiresAt r')"
  using assms
  by (cases "c = rc")
    (auto simp: map_of_cleanup_empty fields_record_left update_conv' split: if_splits)

lemma map_of_rooms_disconnect:
  assumes "map_of (rooms (cleanup_empty rc (room\<lparr>users := us\<rparr>)
             (record_left sid u rc (s\<lparr>rooms := AList.update rc (room\<lparr>users := us\<rparr>) (rooms s)\<rparr>))))
             c = Some r'"
    and "map_of (rooms s) rc = Some room"
  shows "map_option expiresAt (map_of (rooms s) c) = Some (expiresAt r')"
  using assms
  by (cases "c = rc")
    (auto simp: map_of_cleanup_empty fields_record_left update_conv' split: if_splits)

lemma fields_set_voice:
  "usedCodes (set_voice b rc s) = usedCodes s"
  "userSessions (set_voice b rc s) = userSessions s"
  "usernameSessions (set_voice b rc s) = usernameSessions s"
  "roomCode (set_voice b rc s) = roomCode s"
  "members (set_voice b rc s) = members s"
  "disconnected (set_voice b rc s) = disconnected s"
  by (simp_all add: set_voice_def set_room_def split: option.splits)

lemma map_of_set_voice:
  "map_of (rooms (set_voice b rc s)) c =
     (if c = rc then map_option (\<lambda>r. r\<lparr>inVoiceChat := Some b\<rparr>) (map_of (rooms s) rc)
      else map_of (rooms s) c)"
  by (simp add: set_voice_def set_room_def update_conv' split: option.splits)

lemma messages_set_voice:
  "map_option messages (map_of (rooms (set_voice b rc s)) c) =
   map_option messages (map_of (rooms s) c)"
  by (simp add: map_of_set_voice option.map_comp comp_def)

subsection \<open>The sweep in closed form\<close>

lemma map_of_filter_fst:
  "map_of [p \<leftarrow> rs. fst p \<notin> D] c = (if c \<in> D then None else map_of rs c)"
  by (induction rs) auto


lemma filter_keys_notin: "c \<in> D \<Longrightarrow> c \<notin> fst ` {p \<in> set rs. fst p \<notin> D}"
  by auto

lemma sweep_loop_eq:
  "sweep_loop now es s out =
     (s\<lparr>rooms := [p \<leftarrow> rooms s. fst p \<notin> fst ` set (expired now es)],
        usedCodes := usedCodes s - fst ` set (expired now es)\<rparr>,
      out @ map (\<lambda>p. (members s (fst p), RoomExpired)) (expired now es))"
proof (induction es arbitrary: s out)
  case Nil
  show ?case by (simp add: expired_def)
next
  case (Cons e es)
  obtain code room where e: "e = (code, room)" by (cases e)
  show ?case
  proof (cases "now > expiresAt room")
    case True
    have "[p \<leftarrow> AList.delete code (rooms s). fst p \<notin> fst ` set (expired now es)] =
          [p \<leftarrow> rooms s. fst p \<notin> insert code (fst ` set (expired now es))]"
      by (auto simp: AList.delete_eq intro: filter_cong)
    moreover have "usedCodes s - {code} - fst ` set (expired now es) =
          usedCodes s - insert code (fst ` set (expired now es))" by auto
    ultimately show ?thesis
      using True by (simp add: e Cons.IH expired_def)
  next
    case False
    then show ?thesis by (simp add: e Cons.IH expired_def)
  qed
qed

lemma sweep_eq:
  "sweep now s =
     (s\<lparr>rooms := [p \<leftarrow> rooms s. fst p \<notin> fst ` set (expired now (rooms s))],
        usedCodes := usedCodes s - fst ` set (expired now (rooms s))\<rparr>,
      map (\<lambda>p. (members s (fst p), RoomExpired)) (expired now (rooms s)))"
  by (simp add: sweep_def sweep_loop_eq)

lemma sweep_expired:
  assumes "map_of (rooms s) c = Some r" "now > expiresAt r"
  shows "c \<in> fst ` set (expired now (rooms s))"
proof -
  from assms(1) have "(c, r) \<in> set (rooms s)" by (rule map_of_SomeD)
  with assms(2) have "(c, r) \<in> set (expired now (rooms s))" by (simp add: expired_def)
  then show ?thesis by force
qed

section \<open>The consistency invariant\<close>

lemma room_inv_cong:
  "room_inv s c r \<Longrightarrow> usedCodes s \<subseteq> usedCodes s' \<Longrightarrow> members s c \<subseteq> members s' c \<Longrightarrow>
   disconnected s \<subseteq> disconnected s' \<Longrightarrow> room_inv s' c r"
  by (auto simp: room_inv_def)

lemma room_inv_nonempty: "room_inv s c r \<Longrightarrow> c \<noteq> []"
  by (auto simp: room_inv_def four_digits_def)

lemma room_inv_subscribed:
  "room_inv s c r \<Longrightarrow> u \<in> set (users r) \<Longrightarrow> socketId u \<notin> disconnected s \<Longrightarrow>
   socketId u \<in> members s c"
  by (auto simp: room_inv_def)


lemma room_inv_shown:
  "room_inv s c r \<Longrightarrow> u \<in> set (users r) \<Longrightarrow> returns (js_to_string (username u))"
  by (auto simp: room_inv_def)

lemma consistent_room:
  "consistent s \<Longrightarrow> map_of (rooms s) c = Some r \<Longrightarrow> room_inv s c r"
  unfolding consistent_def by blast

lemma consistent_distinct: "consistent s \<Longrightarrow> distinct (map fst (rooms s))"
  unfolding consistent_def by blast

lemma consistent_joinRoom:
  assumes "consistent s" "joinRoom sid data now rnd s = Inr (s', out)"
  shows "consistent s'"
proof -
  from joinRoom_Inr [OF assms(2)] show ?thesis
  proof (elim disjE exE conjE)
    assume "s' = s"
    with assms(1) show ?thesis by simp
  next
    fix c room uname
    assume c: "four_digits c" "map_of (rooms s) c = Some room" "length (users room) < 2"
      "\<not> has_user sid room"
    and nm: "returns (js_to_string (js_or uname (auto_name rnd 0)))"
    and s': "s' = s\<lparr>rooms := AList.update c
                 (room\<lparr>users := users room @
                          [\<lparr>socketId = sid, username = js_or uname (auto_name rnd 0),
                            joinedAt = now\<rparr>],
                       lastActivity := now,
                       expiresAt := now + ROOM_EXPIRY_TIME\<rparr>) (rooms s),
               members := (members s)(c := insert sid (members s c)),
               roomCode := (roomCode s)(sid := Some c)\<rparr>"
    from assms(1) c(2) have ri: "room_inv s c room" by (simp add: consistent_def)
    have d: "distinct (map fst (rooms s'))"
      using assms(1) by (simp add: s' consistent_def distinct_update)
    have "room_inv s' c' r" if "map_of (rooms s') c' = Some r" for c' r
    proof (cases "c' = c")
      case True
      with that have "r = room\<lparr>users := users room @
                          [\<lparr>socketId = sid, username = js_or uname (auto_name rnd 0),
                            joinedAt = now\<rparr>],
                       lastActivity := now,
                       expiresAt := now + ROOM_EXPIRY_TIME\<rparr>"
        by (simp add: s' update_conv')
      with ri c nm True show ?thesis
        by (auto simp: room_inv_def s' has_user_iff truthy_js_or truthy_auto_name)
    next
      case False
      with that have "map_of (rooms s) c' = Some r" by (simp add: s' update_conv')
      with assms(1) have "room_inv s c' r" by (simp add: consistent_def)
      then show ?thesis by (rule room_inv_cong) (auto simp: s')
    qed
    with d show ?thesis by (simp add: consistent_def)
  qed
qed

lemma consistent_createRoom:
  assumes "consistent s" "createRoom sid data now rnd s = Inr (s', out)"
  shows "consistent s'"
proof -
  from createRoom_Inr [OF assms(2)] obtain uname code k where
    g: "generateUniqueRoomCode rnd s =
         Some (code, k, s\<lparr>usedCodes := insert code (usedCodes s)\<rparr>)" and
    s': "s' = s\<lparr>usedCodes := insert code (usedCodes s),
               rooms := AList.update code
                 \<lparr>users = [\<lparr>socketId = sid, username = js_or uname (auto_name rnd k),
                             joinedAt = now\<rparr>],
                  messages = [], createdAt = now, expiresAt = now + ROOM_EXPIRY_TIME,
                  lastActivity = now, inVoiceChat = None\<rparr> (rooms s),
               members := (members s)(code := insert sid (members s code)),
               roomCode := (roomCode s)(sid := Some code)\<rparr>" and
    nm: "returns (js_to_string (js_or uname (auto_name rnd k)))"
    by blast
  from generateUniqueRoomCode_Some [OF g] have fd: "four_digits code" by simp
  have d: "distinct (map fst (rooms s'))"
    using assms(1) by (simp add: s' consistent_def distinct_update)
  have "room_inv s' c' r" if "map_of (rooms s') c' = Some r" for c' r
  proof (cases "c' = code")
    case True
    with that have "r = \<lparr>users = [\<lparr>socketId = sid, username = js_or uname (auto_name rnd k),
                             joinedAt = now\<rparr>],
                  messages = [], createdAt = now, expiresAt = now + ROOM_EXPIRY_TIME,
                  lastActivity = now, inVoiceChat = None\<rparr>"
      by (simp add: s' update_conv')
    with fd nm True show ?thesis
      by (simp add: room_inv_def s' truthy_js_or truthy_auto_name)
  next
    case False
    with that have "map_of (rooms s) c' = Some r" by (simp add: s' update_conv')
    with assms(1) have "room_inv s c' r" by (simp add: consistent_def)
    then show ?thesis by (rule room_inv_cong) (auto simp: s')
  qed
  with d show ?thesis by (simp add: consistent_def)
qed

lemma consistent_sendMessage:
  assumes "consistent s" "sendMessage sid data now rnd s = Inr (s', out)"
  shows "consistent s'"
proof -
  from sendMessage_Inr [OF assms(2)] show ?thesis
  proof (elim disjE exE conjE)
    fix rc room user body
    assume rc: "map_of (rooms s) rc = Some room"
    and s': "s' = s\<lparr>rooms := AList.update rc
                 (room\<lparr>messages := messages room @
                          [\<lparr>msg_id = (now, rnd 0), msg_username = username user,
                            msg_text = trim body, msg_timestamp = now,
                            msg_socketId = sid\<rparr>],
                       lastActivity := now,
                       expiresAt := now + ROOM_EXPIRY_TIME\<rparr>) (rooms s)\<rparr>"
    have d: "distinct (map fst (rooms s'))"
      using assms(1) by (simp add: s' consistent_def distinct_update)
    have "room_inv s' c' r" if "map_of (rooms s') c' = Some r" for c' r
    proof -
      from that rc obtain r0 where "map_of (rooms s) c' = Some r0" "users r = users r0"
        by (cases "c' = rc") (auto simp: s' update_conv')
      with assms(1) have "room_inv s c' r0" by (simp add: consistent_def)
      with \<open>users r = users r0\<close> show ?thesis by (simp add: room_inv_def s')
    qed
    with d show ?thesis by (simp add: consistent_def)
  qed (use assms(1) in simp_all)
qed

lemma consistent_remove_user:
  assumes c: "consistent s"
    and rc: "map_of (rooms s) rc = Some room"
    and i: "findIndex (\<lambda>u. socketId u = sid) (users room) = Some i"
    and s1: "rooms s1 = AList.update rc (room\<lparr>users := splice1 i (users room)\<rparr>) (rooms s)"
      "usedCodes s1 = usedCodes s" "disconnected s1 = disconnected s"
      "\<And>c. c \<noteq> rc \<Longrightarrow> members s1 c = members s c"
      "members s rc - {sid} \<subseteq> members s1 rc"
  shows "consistent (cleanup_empty rc (room\<lparr>users := splice1 i (users room)\<rparr>)
                       (record_left sid u rc s1))"
    (is "consistent ?s'")
proof -
  let ?room' = "room\<lparr>users := splice1 i (users room)\<rparr>"
  from c rc have ri: "room_inv s rc room" by (simp add: consistent_def)
  from findIndex_Some [OF i] have il: "i < length (users room)"
    and sid: "socketId (users room ! i) = sid" by simp_all
  from ri have "distinct (map socketId (users room))" by (simp add: room_inv_def)
  from distinct_splice1 [OF this il] sid
  have ds: "distinct (map socketId (splice1 i (users room)))"
    and ns: "sid \<notin> socketId ` set (splice1 i (users room))" by simp_all
  have d: "distinct (map fst (rooms ?s'))"
    using c by (intro distinct_cleanup_empty)
      (simp add: fields_record_left s1 consistent_def distinct_update)
  have "room_inv ?s' c' r" if m: "map_of (rooms ?s') c' = Some r" for c' r
  proof (cases "c' = rc")
    case True
    with m have ne: "users ?room' \<noteq> []" and r: "r = ?room'"
      by (auto simp: map_of_cleanup_empty fields_record_left s1 update_conv'
          split: if_splits)
    have "room_inv ?s' rc ?room'"
      unfolding room_inv_def
    proof (intro conjI)
      show "four_digits rc" using ri by (simp add: room_inv_def)
      show "rc \<in> usedCodes ?s'"
        using ri ne by (simp add: fields_cleanup_empty fields_record_left s1 room_inv_def)
      show "length (users ?room') \<le> 2"
        using ri il by (auto simp: length_splice1 room_inv_def)
      show "distinct (map socketId (users ?room'))" using ds by simp
      show "\<forall>x \<in> set (users ?room'). truthy (username x) \<and>
        returns (js_to_string (username x)) \<and>
        (socketId x \<in> members ?s' rc \<or> socketId x \<in> disconnected ?s')"
      proof
        fix x assume x: "x \<in> set (users ?room')"
        then have xs: "x \<in> set (users room)" using set_splice1 [of i "users room"] by auto
        from x ns have "socketId x \<noteq> sid" by auto
        with ri xs s1(5) show "truthy (username x) \<and>
          returns (js_to_string (username x)) \<and>
          (socketId x \<in> members ?s' rc \<or> socketId x \<in> disconnected ?s')"
          by (auto simp: fields_cleanup_empty fields_record_left s1(3) room_inv_def)
      qed
    qed
    with True r show ?thesis by simp
  next
    case False
    with m have "map_of (rooms s) c' = Some r"
      by (auto simp: map_of_cleanup_empty fields_record_left s1 update_conv'
          split: if_splits)
    with c have "room_inv s c' r" by (simp add: consistent_def)
    with False show ?thesis
      by (auto simp: room_inv_def fields_cleanup_empty fields_record_left s1)
  qed
  with d show ?thesis by (simp add: consistent_def)
qed

lemma consistent_leaveRoom:
  assumes "consistent s" "leaveRoom sid s = Inr (s', out)"
  shows "consistent s'"
proof -
  from leaveRoom_Inr [OF assms(2)] show ?thesis
  proof (elim disjE exE conjE)
    fix rc room i shown
    assume "map_of (rooms s) rc = Some room"
      "findIndex (\<lambda>u. socketId u = sid) (users room) = Some i"
      and s': "s' = cleanup_empty rc (room\<lparr>users := splice1 i (users room)\<rparr>)
              (record_left sid shown rc
                 (s\<lparr>rooms := AList.update rc (room\<lparr>users := splice1 i (users room)\<rparr>)
                                (rooms s),
                     members := (members s)(rc := members s rc - {sid}),
                     roomCode := (roomCode s)(sid := None)\<rparr>))"
    then show ?thesis
      unfolding s' by (intro consistent_remove_user [OF assms(1)]) simp_all
  qed (use assms(1) in simp)
qed

lemma consistent_disconnect:
  assumes "consistent s" "disconnect sid s = Inr (s', out)"
  shows "consistent s'"
proof -
  from disconnect_Inr [OF assms(2)] show ?thesis
  proof (elim disjE exE conjE)
    fix rc room i shown
    assume "map_of (rooms s) rc = Some room"
      "findIndex (\<lambda>u. socketId u = sid) (users room) = Some i"
      and s': "s' = cleanup_empty rc (room\<lparr>users := splice1 i (users room)\<rparr>)
              (record_left sid shown rc
                 (s\<lparr>rooms := AList.update rc (room\<lparr>users := splice1 i (users room)\<rparr>)
                                (rooms s)\<rparr>))"
    then show ?thesis
      unfolding s' by (intro consistent_remove_user [OF assms(1)]) auto
  qed (use assms(1) in simp)
qed

lemma consistent_close_socket:
  assumes "consistent s"
  shows "consistent (close_socket sid s)"
proof -
  have "room_inv (close_socket sid s) c r" if "map_of (rooms s) c = Some r" for c r
  proof -
    from assms that have "room_inv s c r" by (simp add: consistent_def)
    then show ?thesis by (auto simp: room_inv_def close_socket_def)
  qed
  with assms show ?thesis by (simp add: consistent_def close_socket_def)
qed

lemma consistent_set_voice: "consistent s \<Longrightarrow> consistent (set_voice b rc s)"
proof -
  assume c: "consistent s"
  show ?thesis
  proof (cases "map_of (rooms s) rc")
    case None
    with c show ?thesis by (simp add: set_voice_def)
  next
    case (Some room)
    have "room_inv (set_voice b rc s) c' r"
      if "map_of (rooms (set_voice b rc s)) c' = Some r" for c' r
    proof -
      from that Some obtain r0 where "map_of (rooms s) c' = Some r0" "users r = users r0"
        by (cases "c' = rc") (auto simp: set_voice_def set_room_def update_conv')
      with c have "room_inv s c' r0" by (simp add: consistent_def)
      with \<open>users r = users r0\<close> Some show ?thesis
        by (simp add: room_inv_def set_voice_def set_room_def)
    qed
    moreover have "distinct (map fst (rooms (set_voice b rc s)))"
      using c Some by (simp add: consistent_def set_voice_def set_room_def distinct_update)
    ultimately show ?thesis by (simp add: consistent_def)
  qed
qed

lemma consistent_sweep:
  assumes "consistent s"
  shows "consistent (fst (sweep now s))"
proof -
  let ?D = "fst ` set (expired now (rooms s))"
  have "room_inv (fst (sweep now s)) c r"
    if "map_of (rooms (fst (sweep now s))) c = Some r" for c r
  proof -
    from that have c: "c \<notin> ?D" "map_of (rooms s) c = Some r"
      by (auto simp: sweep_eq map_of_filter_fst split: if_splits)
    with assms have "room_inv s c r" by (simp add: consistent_def)
    with c(1) show ?thesis by (simp add: room_inv_def sweep_eq)
  qed
  moreover have "distinct (map fst (rooms (fst (sweep now s))))"
    using assms by (simp add: sweep_eq consistent_def distinct_map_filter)
  ultimately show ?thesis by (simp add: consistent_def)
qed

lemma consistent_generateRoomCode:
  assumes "consistent s" "generateRoomCode rnd s = Inr (s', out)"
  shows "consistent s'"
proof -
  from assms(2) obtain code k where
    g: "generateUniqueRoomCode rnd s = Some (code, k, s')"
    by (auto simp: generateRoomCode_def split: option.splits)
  from generateUniqueRoomCode_Some [OF g]
  have s': "s' = s\<lparr>usedCodes := insert code (usedCodes s)\<rparr>" by simp
  have "room_inv s' c r" if "map_of (rooms s) c = Some r" for c r
  proof -
    from assms(1) that have "room_inv s c r" by (simp add: consistent_def)
    then show ?thesis by (rule room_inv_cong) (auto simp: s')
  qed
  with assms(1) show ?thesis by (simp add: consistent_def s')
qed

lemma consistent_dispatch:
  assumes "consistent s" "dispatch ev now rnd s = Inr (s', out)"
  shows "consistent s'"
proof (cases ev)
  case (EvJoinRoom sid d)
  with assms show ?thesis by (auto intro: consistent_joinRoom)
next
  case (EvCreateRoom sid d)
  with assms show ?thesis by (auto intro: consistent_createRoom)
next
  case (EvSendMessage sid d)
  with assms show ?thesis by (auto intro: consistent_sendMessage)
next
  case (EvTyping sid d)
  with assms show ?thesis
    by (auto simp: typing_def split: option.splits if_splits sum.splits)
next
  case (EvDisconnect sid)
  with assms show ?thesis
    by (auto intro: consistent_disconnect consistent_close_socket)
next
  case (EvLeaveRoom sid)
  with assms show ?thesis by (auto intro: consistent_leaveRoom)
next
  case (EvVoiceChatOffer sid d)
  with assms show ?thesis by (auto simp: voiceChatOffer_def split: option.splits)
next
  case (EvVoiceChatAnswer sid d)
  with assms show ?thesis by (auto simp: voiceChatAnswer_def split: option.splits)
next
  case (EvIceCandidate sid d)
  with assms show ?thesis by (auto simp: iceCandidate_def split: option.splits)
next
  case (EvStartVoiceChat sid)
  with assms show ?thesis
    by (auto simp: startVoiceChat_def Let_def consistent_set_voice split: option.splits)
next
  case (EvEndVoiceChat sid)
  with assms show ?thesis
    by (auto simp: endVoiceChat_def Let_def consistent_set_voice split: option.splits)
next
  case EvSweep
  with assms consistent_sweep [of s now] show ?thesis by auto
next
  case EvGenerateRoomCode
  with assms show ?thesis by (auto intro: consistent_generateRoomCode)
qed

lemma consistent_step:
  assumes "consistent s" "step e s = Inr (s', out)"
  shows "consistent s'"
proof -
  obtain ev now rnd where e: "e = (ev, now, rnd)" by (cases e)
  from assms(2) have "s' = s \<or> dispatch ev now rnd s = Inr (s', out)"
    by (auto simp: step_def e split: option.splits if_splits)
  with assms(1) show ?thesis by (auto intro: consistent_dispatch)
qed

lemma consistent_run:
  "consistent s \<Longrightarrow> run es s = Inr (s', out) \<Longrightarrow> consistent s'"
proof (induction es arbitrary: s out)
  case Nil
  then show ?case by simp
next
  case (Cons e es)
  from Cons.prems(2) obtain s1 o1 o2 where
    st: "step e s = Inr (s1, o1)" and r: "run es s1 = Inr (s', o2)"
    by (auto split: sum.splits)
  from consistent_step [OF Cons.prems(1) st] r show ?case by (rule Cons.IH)
qed

lemma consistent_init: "consistent init"
  by (simp add: consistent_def init_def)

lemma consistent_reachable: "run es init = Inr (s, out) \<Longrightarrow> consistent s"
  by (rule consistent_run [OF consistent_init])

section \<open>The session ledger\<close>






lemma leaveRoom_records:
  assumes "roomCode s sid = Some rc" "rc \<noteq> []" "map_of (rooms s) rc = Some room"
    "find (\<lambda>u. socketId u = sid) (users room) = Some u"
    "leaveRoom sid s = Inr (s', out)"
  shows "\<exists>shown. js_to_string (username u) = Inr shown \<and>
           userSessions s' = insert (session_key sid rc) (userSessions s) \<and>
           usernameSessions s' = insert (session_key shown rc) (usernameSessions s)"
proof -
  from find_findIndex [OF assms(4)] obtain i where
    "findIndex (\<lambda>u. socketId u = sid) (users room) = Some i" "users room ! i = u" by blast
  with assms show ?thesis
    by (auto simp: leaveRoom_def active_room_def has_room_def Let_def
        fields_cleanup_empty fields_record_left set_room_def socket_leave_def
        split: sum.splits)
qed

lemma disconnect_records:
  assumes "roomCode s sid = Some rc" "rc \<noteq> []" "map_of (rooms s) rc = Some room"
    "find (\<lambda>u. socketId u = sid) (users room) = Some u"
    "disconnect sid s = Inr (s', out)"
  shows "\<exists>shown. js_to_string (username u) = Inr shown \<and>
           userSessions s' = insert (session_key sid rc) (userSessions s) \<and>
           usernameSessions s' = insert (session_key shown rc) (usernameSessions s)"
proof -
  from find_findIndex [OF assms(4)] obtain i where
    "findIndex (\<lambda>u. socketId u = sid) (users room) = Some i" "users room ! i = u" by blast
  with assms show ?thesis
    by (auto simp: disconnect_def active_room_def has_room_def Let_def
        fields_cleanup_empty fields_record_left set_room_def split: sum.splits)
qed

lemma js_to_string_auto_name:
  "js_to_string (auto_name rnd i) = Inr (''User'' @ dec (rnd i mod 1000))"
  by (simp add: auto_name_def)

lemma session_key_anonymous:
  "session_key ''anonymous'' c \<noteq> session_key (''User'' @ n) rc"
  by (simp add: session_key_def)

lemma joinRoom_ledger_check:
  assumes "get_prop data ''code'' = Inr (JStr c)" "get_prop data ''username'' = Inr un"
    "four_digits c" "map_of (rooms s) c = Some r" "length (users r) < 2"
    "\<not> has_user sid r" "js_to_string (js_or un (JStr ''anonymous'')) = Inr shown"
  shows "joinRoom sid data now rnd s = Inr (s, [({sid}, ErrorEv msg_RejoinForbidden)]) \<longleftrightarrow>
         session_key sid c \<in> userSessions s \<or> session_key shown c \<in> usernameSessions s"
  using assms
  by (auto simp: joinRoom_def code_test_JStr Let_def logged_def split: sum.splits)


section \<open>Evaluating the scenarios\<close>

lemma run_append:
  "run es s = Inr (s1, o1) \<Longrightarrow> run (es @ es') s =
     (case run es' s1 of Inl f \<Rightarrow> Inl f | Inr (s2, o2) \<Rightarrow> Inr (s2, o1 @ o2))"
proof (induction es arbitrary: s o1)
  case Nil
  then show ?case by (auto split: sum.splits)
next
  case (Cons e es)
  from Cons.prems obtain sa oa ob where
    st: "step e s = Inr (sa, oa)" and r: "run es sa = Inr (s1, ob)" and o: "o1 = oa @ ob"
    by (auto split: sum.splits)
  from Cons.IH [OF r] st o show ?case by (auto split: sum.splits)
qed

lemma replicate_3: "replicate 3 c = [c, c, c]"
  by (simp add: numeral_3_eq_3)

lemma random_code_rnd0: "random_code rnd0 i = ''0000''"
  by (simp add: random_code_def rnd0_def padStart4_def dec.simps replicate_3 digit_char_def)

lemma auto_name_rnd0: "auto_name rnd0 i = JStr ''User0''"
  by (simp add: auto_name_def rnd0_def dec.simps digit_char_def)

lemma generateUniqueRoomCode_fresh:
  assumes "random_code rnd 0 \<notin> usedCodes s"
  shows "generateUniqueRoomCode rnd s =
           Some (random_code rnd 0, 1, s\<lparr>usedCodes := insert (random_code rnd 0) (usedCodes s)\<rparr>)"
proof -
  from assms have "first_loop rnd (usedCodes s) 0 = (random_code rnd 0, 0 + 1)"
    by (intro first_loop_stop) simp
  then show ?thesis by (simp add: generateUniqueRoomCode_def maxAttempts_def)
qed

lemma four_digits_0000: "four_digits ''0000''"
  by (simp add: four_digits_def is_digit_def)

lemma run_two_party: "run two_party_trace init = Inr (two_party_state, two_party_out)"
  by (simp add: two_party_trace_def two_party_state_def two_party_out_def two_party_room_def
      step_def init_def createRoom_def logged_def joinRoom_def logged_def generateUniqueRoomCode_fresh
      random_code_rnd0 set_room_def socket_join_def js_or_def code_test_def four_digits_0000
      has_user_def session_key_def Let_def)

lemma run_reserved:
  "run [(EvGenerateRoomCode, 0, rnd0)] init = Inr (reserved_state, [({}, CodeResponse ''0000'')])"
  by (simp add: step_def generateRoomCode_def generateUniqueRoomCode_fresh random_code_rnd0
      init_def reserved_state_def)

lemma generate_reserved:
  "generateUniqueRoomCode rnd0 reserved_state = Some (''0000'', 101, reserved_state)"
proof -
  have "first_loop rnd0 (usedCodes reserved_state) 0 =
          (random_code rnd0 (maxAttempts - 1), maxAttempts)"
    by (rule first_loop_collide)
      (simp_all add: maxAttempts_def random_code_rnd0 reserved_state_def)
  moreover have "fallback_loop rnd0 (rooms reserved_state) maxAttempts = Some (''0000'', 101)"
    by (subst fallback_loop.simps)
      (simp add: random_code_rnd0 has_room_def reserved_state_def init_def maxAttempts_def)
  ultimately show ?thesis
    by (simp add: generateUniqueRoomCode_def random_code_rnd0 reserved_state_def
        insert_absorb)
qed

lemma run_solo: "run solo_trace init = Inr (solo_state, solo_out)"
  by (simp add: solo_trace_def solo_state_def solo_out_def solo_room_def
      step_def init_def createRoom_def logged_def generateUniqueRoomCode_fresh
      random_code_rnd0 set_room_def socket_join_def js_or_def Let_def)




lemma send_hello:
  "sendMessage ''B'' (JObj [(''message'', JStr '' hello '')]) 5 rnd0 two_party_state =
     Inr (hello_state, [({''B'', ''A''}, NewMessage hello_message)])"
  by (simp add: two_party_state_def two_party_room_def hello_state_def hello_message_def
      sendMessage_def active_room_def has_room_def set_room_def trim_def is_ws_def
      rnd0_def Let_def)

lemma sweep_two_party:
  "sweep (2 + ROOM_EXPIRY_TIME) two_party_state = (swept_state, [({''B'', ''A''}, RoomExpired)])"
  by (simp add: two_party_state_def two_party_room_def swept_state_def sweep_def)

lemma run_typing: "run typing_trace init = Inr (solo_state, typing_out)"
  unfolding typing_trace_def
  by (subst run_append [OF run_solo])
    (simp add: step_def typing_def solo_state_def typing_out_def)

lemma run_reuse: "run reuse_trace init = Inr (reuse_state, reuse_out)"
  unfolding reuse_trace_def
  by (subst run_append [OF run_solo])
    (simp add: step_def sweep_def solo_state_def solo_room_def solo_out_def reuse_state_def
      reuse_room_def reuse_out_def ROOM_EXPIRY_TIME_def
      createRoom_def logged_def generateUniqueRoomCode_fresh
      random_code_rnd0 set_room_def socket_join_def js_or_def Let_def)

lemma offer_reuse:
  "voiceChatOffer ''A'' (JStr ''sdp'') reuse_state =
     Inr (reuse_state, [({''B''}, OutVoiceChatOffer (JStr ''sdp''))])"
  by (auto simp: voiceChatOffer_def active_room_def has_room_def reuse_state_def)


lemma run_guest: "run guest_trace init = Inr (guest_state, guest_out)"
  unfolding guest_trace_def
  by (subst run_append [OF run_solo])
    (simp add: step_def solo_state_def solo_room_def guest_state_def guest_room_def
      guest_out_def two_party_state_def joinRoom_def logged_def code_test_def four_digits_0000
      has_user_def session_key_def js_or_def auto_name_rnd0 set_room_def socket_join_def
      Let_def)

lemma leave_guest:
  "step (EvLeaveRoom ''B'', 2, rnd0) guest_state = Inr (guest_left_state, guest_left_out)"
  by (simp add: guest_state_def two_party_state_def guest_room_def guest_left_state_def
      guest_left_out_def step_def leaveRoom_def
      active_room_def has_room_def splice1_def record_left_def cleanup_empty_def
      set_room_def socket_leave_def session_key_def Let_def fun_eq_iff)

lemma run_anon_tail:
  "run [(EvJoinRoom ''D'' (JObj [(''code'', JStr ''0000''), (''username'', JStr ''anonymous'')]),
         3, rnd0),
        (EvLeaveRoom ''D'', 4, rnd0)] guest_left_state =
   Inr (anon_state,
     [({''D''}, JoinedRoom ''0000'' (JStr ''anonymous'') 2 []),
      ({''A''}, UserJoined (JStr ''anonymous'') 2),
      ({''A''}, UserLeft (JStr ''anonymous'') 1),
      ({''D''}, LeftRoom)])"
  by (simp add: guest_left_state_def guest_room_def anon_state_def step_def
      joinRoom_def logged_def code_test_def four_digits_0000
      has_user_def session_key_def js_or_def set_room_def socket_join_def
      leaveRoom_def active_room_def has_room_def splice1_def record_left_def
      cleanup_empty_def socket_leave_def Let_def fun_eq_iff)

lemma run_anon: "run anon_trace init = Inr (anon_state, anon_out)"
  unfolding anon_trace_def
  by (subst run_append [OF run_guest])
    (simp add: leave_guest run_anon_tail [simplified] anon_out_def)

lemma join_anon:
  "joinRoom ''E'' (JObj [(''code'', JStr ''0000'')]) 5 rnd0 anon_state =
     Inr (anon_state, [({''E''}, ErrorEv msg_RejoinForbidden)])"
  by (simp add: anon_state_def guest_room_def joinRoom_def logged_def code_test_def four_digits_0000
      has_user_def session_key_def js_or_def Let_def)



section \<open>Claims\<close>

text \<open>
  Claim C1. After any sequence of events, every room in the store has at most two
  participants, and a \<open>joinRoom\<close> naming a room that already has two participants
  answers \<open>roomFull\<close> to the caller and returns the state unchanged: rooms with their
  participants, messages and expiry deadlines, the used codes and both ledgers.
\<close>

theorem C1_room_capacity:
  assumes "run evs init = Inr (s, out)"
  shows "(\<forall>(c, r) \<in> set (rooms s). length (users r) \<le> 2) \<and>
         (\<forall>c r sid data now rnd.
            map_of (rooms s) c = Some r \<and> length (users r) = 2 \<and>
            get_prop data ''code'' = Inr (JStr c) \<longrightarrow>
            joinRoom sid data now rnd s = Inr (s, [({sid}, RoomFull)]))"
proof (intro conjI allI impI)
  from assms have c: "consistent s" by (rule consistent_reachable)
  show "\<forall>(c, r) \<in> set (rooms s). length (users r) \<le> 2"
  proof (clarify)
    fix c r assume "(c, r) \<in> set (rooms s)"
    with consistent_distinct [OF c] have "map_of (rooms s) c = Some r" by simp
    from consistent_room [OF c this] show "length (users r) \<le> 2"
      by (simp add: room_inv_def)
  qed
  fix c r sid data now rnd
  assume a: "map_of (rooms s) c = Some r \<and> length (users r) = 2 \<and>
             get_prop data ''code'' = Inr (JStr c)"
  with consistent_room [OF c, of c r] have "four_digits c" by (simp add: room_inv_def)
  moreover from a obtain w where "get_prop data ''username'' = Inr w"
    using get_prop_Inr_any by blast
  ultimately show "joinRoom sid data now rnd s = Inr (s, [({sid}, RoomFull)])"
    using a by (simp add: joinRoom_def code_test_JStr)
qed

theorem C1_room_capacity_witness:
  "run two_party_trace init = Inr (two_party_state, two_party_out) \<and>
   length (users two_party_room) = 2 \<and>
   joinRoom ''C'' (JObj [(''code'', JStr ''0000'')]) 2 rnd0 two_party_state =
     Inr (two_party_state, [({''C''}, RoomFull)])"
proof -
  have m: "map_of (rooms two_party_state) ''0000'' = Some two_party_room"
    by (simp add: two_party_state_def)
  have l: "length (users two_party_room) = 2" by (simp add: two_party_room_def)
  have g: "get_prop (JObj [(''code'', JStr ''0000'')]) ''code'' = Inr (JStr ''0000'')"
    by simp
  from C1_room_capacity [OF run_two_party] m l g
  have "joinRoom ''C'' (JObj [(''code'', JStr ''0000'')]) 2 rnd0 two_party_state =
     Inr (two_party_state, [({''C''}, RoomFull)])" by blast
  with run_two_party l show ?thesis by simp
qed




text \<open>
  Claim C3, as stated, fails: after one code has been handed out by
  \<open>/generateRoomCode\<close>, an allocation whose draws all give \<open>0000\<close> exhausts the hundred
  attempts, falls back to checking the room store only, and returns \<open>0000\<close>, which is
  in the used-code set at that moment.
\<close>

theorem C3_counterexample:
  "run [(EvGenerateRoomCode, 0, rnd0)] init =
     Inr (reserved_state, [({}, CodeResponse ''0000'')]) \<and>
   ''0000'' \<in> usedCodes reserved_state \<and>
   generateUniqueRoomCode rnd0 reserved_state = Some (''0000'', 101, reserved_state)"
  using run_reserved generate_reserved by (simp add: reserved_state_def)

text \<open>
  Claim C3, amended. In every reachable state, a call of the allocator that returns
  yields a four-digit string that is not the code of any active room and adds it to the
  used-code set; when fewer than \<open>maxAttempts\<close> draws were made the code was also absent
  from the used-code set before the call. The call returns whenever one of the first
  \<open>maxAttempts - 1\<close> draws misses the used-code set, or some draw from the
  \<open>maxAttempts\<close>-th on misses the room store.
\<close>

theorem C3_allocator:
  assumes "run evs init = Inr (s, out)"
  shows "(generateUniqueRoomCode rnd s = Some (code, k, s') \<longrightarrow>
            four_digits code \<and> map_of (rooms s) code = None \<and>
            (k < maxAttempts \<longrightarrow> code \<notin> usedCodes s) \<and>
            s' = s\<lparr>usedCodes := insert code (usedCodes s)\<rparr>) \<and>
         ((\<exists>i < maxAttempts - 1. random_code rnd i \<notin> usedCodes s) \<or>
          (\<exists>j \<ge> maxAttempts. \<not> has_room (rooms s) (random_code rnd j)) \<longrightarrow>
            generateUniqueRoomCode rnd s \<noteq> None)"
proof (intro conjI impI)
  from assms have c: "consistent s" by (rule consistent_reachable)
  assume g: "generateUniqueRoomCode rnd s = Some (code, k, s')"
  note r = generateUniqueRoomCode_Some [OF g]
  from r show "four_digits code" "s' = s\<lparr>usedCodes := insert code (usedCodes s)\<rparr>"
    by simp_all
  show "map_of (rooms s) code = None"
  proof (cases "k < maxAttempts")
    case True
    with r have n: "code \<notin> usedCodes s" by simp
    show ?thesis
    proof (rule ccontr)
      assume "map_of (rooms s) code \<noteq> None"
      then obtain room where "map_of (rooms s) code = Some room" by auto
      from consistent_room [OF c this] n show False by (simp add: room_inv_def)
    qed
  next
    case False
    with r show ?thesis by (simp add: has_room_def)
  qed
  assume "k < maxAttempts"
  with r show "code \<notin> usedCodes s" by simp
next
  assume "(\<exists>i < maxAttempts - 1. random_code rnd i \<notin> usedCodes s) \<or>
          (\<exists>j \<ge> maxAttempts. \<not> has_room (rooms s) (random_code rnd j))"
  then show "generateUniqueRoomCode rnd s \<noteq> None"
    by (rule generateUniqueRoomCode_returns)
qed

theorem C3_allocator_witness:
  "run [] init = Inr (init, []) \<and>
   generateUniqueRoomCode rnd0 init = Some (''0000'', 1, reserved_state) \<and>
   four_digits ''0000'' \<and> map_of (rooms init) ''0000'' = None \<and>
   ''0000'' \<notin> usedCodes init"
proof -
  have r: "run [] init = Inr (init, [])" by simp
  have g: "generateUniqueRoomCode rnd0 init = Some (''0000'', 1, reserved_state)"
    using generateUniqueRoomCode_fresh [of rnd0 init]
    by (simp add: random_code_rnd0 init_def reserved_state_def)
  from C3_allocator [OF r, of rnd0 "''0000''" 1 reserved_state] g
  have "four_digits ''0000'' \<and> map_of (rooms init) ''0000'' = None \<and>
        ''0000'' \<notin> usedCodes init"
    by (simp add: maxAttempts_def)
  with r g show ?thesis by simp
qed




text \<open>
  Claim C5. In every reachable state, when a socket whose room tag names a room in
  which it is a participant sends a message with a string text, the handler returns;
  the room gets a message with the sender's display name and the trimmed text appended
  to its history, and its expiry deadline set to \<open>now + ROOM_EXPIRY_TIME\<close>; nothing
  else in the state changes; and exactly one \<open>newMessage\<close> carrying that message is
  emitted, addressed to the subscribers of the room's broadcast group, among them the
  sender and every other participant whose socket has not closed.
\<close>

theorem C5_sendMessage:
  assumes "run evs init = Inr (s, out)"
    and "roomCode s sid = Some rc"
    and "map_of (rooms s) rc = Some room"
    and "find (\<lambda>u. socketId u = sid) (users room) = Some user"
    and "get_prop data ''message'' = Inr (JStr body)"
  shows "sendMessage sid data now rnd s =
           Inr (s\<lparr>rooms := AList.update rc
                     (room\<lparr>messages := messages room @
                              [\<lparr>msg_id = (now, rnd 0), msg_username = username user,
                                msg_text = trim body, msg_timestamp = now,
                                msg_socketId = sid\<rparr>],
                           lastActivity := now,
                           expiresAt := now + ROOM_EXPIRY_TIME\<rparr>) (rooms s)\<rparr>,
                [(members s rc,
                  NewMessage \<lparr>msg_id = (now, rnd 0), msg_username = username user,
                               msg_text = trim body, msg_timestamp = now,
                               msg_socketId = sid\<rparr>)]) \<and>
         (sid \<notin> disconnected s \<longrightarrow> sid \<in> members s rc) \<and>
         (\<forall>u \<in> set (users room). socketId u \<notin> disconnected s \<longrightarrow>
            socketId u \<in> members s rc)"
proof (intro conjI ballI impI)
  from assms(1) have "consistent s" by (rule consistent_reachable)
  from consistent_room [OF this assms(3)] have ri: "room_inv s rc room" .
  then have "rc \<noteq> []" by (rule room_inv_nonempty)
  with assms(2-5) show "sendMessage sid data now rnd s =
           Inr (s\<lparr>rooms := AList.update rc
                     (room\<lparr>messages := messages room @
                              [\<lparr>msg_id = (now, rnd 0), msg_username = username user,
                                msg_text = trim body, msg_timestamp = now,
                                msg_socketId = sid\<rparr>],
                           lastActivity := now,
                           expiresAt := now + ROOM_EXPIRY_TIME\<rparr>) (rooms s)\<rparr>,
                [(members s rc,
                  NewMessage \<lparr>msg_id = (now, rnd 0), msg_username = username user,
                               msg_text = trim body, msg_timestamp = now,
                               msg_socketId = sid\<rparr>)])"
    by (simp add: sendMessage_def active_room_def has_room_def set_room_def Let_def)
  from assms(4) have "user \<in> set (users room)" "socketId user = sid"
    by (auto simp: find_Some_iff)
  with ri show "sid \<in> members s rc" if "sid \<notin> disconnected s"
    using that room_inv_subscribed by blast
  fix u assume "u \<in> set (users room)" "socketId u \<notin> disconnected s"
  with ri show "socketId u \<in> members s rc" by (rule room_inv_subscribed)
qed

theorem C5_sendMessage_witness:
  "run two_party_trace init = Inr (two_party_state, two_party_out) \<and>
   sendMessage ''B'' (JObj [(''message'', JStr '' hello '')]) 5 rnd0 two_party_state =
     Inr (hello_state, [({''B'', ''A''}, NewMessage hello_message)]) \<and>
   ''A'' \<in> members two_party_state ''0000'' \<and> ''B'' \<in> members two_party_state ''0000''"
proof -
  have h: "roomCode two_party_state ''B'' = Some ''0000''"
    "map_of (rooms two_party_state) ''0000'' = Some two_party_room"
    "find (\<lambda>u. socketId u = ''B'') (users two_party_room) =
       Some \<lparr>socketId = ''B'', username = JStr ''Bob'', joinedAt = 1\<rparr>"
    "get_prop (JObj [(''message'', JStr '' hello '')]) ''message'' = Inr (JStr '' hello '')"
    by (simp_all add: two_party_state_def two_party_room_def)
  have u: "\<lparr>socketId = ''A'', username = JStr ''Ann'', joinedAt = 0\<rparr>
             \<in> set (users two_party_room)"
    by (simp add: two_party_room_def)
  have d: "disconnected two_party_state = {}" by (simp add: two_party_state_def)
  from C5_sendMessage [OF run_two_party h, of 5 rnd0] u d
  have "''B'' \<in> members two_party_state ''0000''" "''A'' \<in> members two_party_state ''0000''"
    by auto
  with run_two_party send_hello show ?thesis by simp
qed

text \<open>
  Claim C6. In every reachable state, a sweep tick treats every room whose expiry
  deadline has passed alike, whatever its number of participants: a \<open>roomExpired\<close>
  event is emitted to the subscribers of the room's broadcast group as they are before
  the removal, among them every participant whose socket has not closed, and after the
  tick the room is in the store no more and its code is out of the used-code set. A
  room whose deadline has not passed stays in the store.
\<close>

theorem C6_sweep:
  assumes "run evs init = Inr (s, out)"
    and "sweep now s = (s', out')"
  shows "(map_of (rooms s) c = Some r \<and> now > expiresAt r \<longrightarrow>
            (members s c, RoomExpired) \<in> set out' \<and>
            (\<forall>u \<in> set (users r). socketId u \<notin> disconnected s \<longrightarrow>
               socketId u \<in> members s c) \<and>
            c \<notin> fst ` set (rooms s') \<and> c \<notin> usedCodes s') \<and>
         (map_of (rooms s) c = Some r \<and> \<not> now > expiresAt r \<longrightarrow>
            map_of (rooms s') c = Some r)"
proof (intro conjI impI ballI)
  from assms(1) have cs: "consistent s" by (rule consistent_reachable)
  from assms(2) have s': "s' = fst (sweep now s)" and out': "out' = snd (sweep now s)"
    by simp_all
  {
    assume a: "map_of (rooms s) c = Some r \<and> now > expiresAt r"
    then have "(c, r) \<in> set (expired now (rooms s))"
      by (auto simp: expired_def dest: map_of_SomeD)
    then show "(members s c, RoomExpired) \<in> set out'"
      by (force simp: out' sweep_eq)
    from a have "c \<in> fst ` set (expired now (rooms s))" by (simp add: sweep_expired)
    then show "c \<notin> fst ` set (rooms s')" "c \<notin> usedCodes s'"
      by (simp_all add: s' sweep_eq filter_keys_notin)
    fix u assume "u \<in> set (users r)" "socketId u \<notin> disconnected s"
    with consistent_room [OF cs, of c r] a show "socketId u \<in> members s c"
      by (auto intro: room_inv_subscribed)
  }
  {
    assume a: "map_of (rooms s) c = Some r \<and> \<not> now > expiresAt r"
    have "c \<notin> fst ` set (expired now (rooms s))"
    proof
      assume "c \<in> fst ` set (expired now (rooms s))"
      then obtain r' where "(c, r') \<in> set (rooms s)" "now > expiresAt r'"
        by (auto simp: expired_def)
      with consistent_distinct [OF cs] have "map_of (rooms s) c = Some r'" by simp
      with a \<open>now > expiresAt r'\<close> show False by simp
    qed
    with a show "map_of (rooms s') c = Some r"
      by (simp add: s' sweep_eq map_of_filter_fst)
  }
qed

theorem C6_sweep_witness:
  "run two_party_trace init = Inr (two_party_state, two_party_out) \<and>
   sweep (2 + ROOM_EXPIRY_TIME) two_party_state =
     (swept_state, [({''B'', ''A''}, RoomExpired)]) \<and>
   2 + ROOM_EXPIRY_TIME > expiresAt two_party_room \<and>
   ''0000'' \<notin> fst ` set (rooms swept_state) \<and> ''0000'' \<notin> usedCodes swept_state"
proof -
  have h: "map_of (rooms two_party_state) ''0000'' = Some two_party_room \<and>
           2 + ROOM_EXPIRY_TIME > expiresAt two_party_room"
    by (simp add: two_party_state_def two_party_room_def)
  from C6_sweep [OF run_two_party sweep_two_party, of "''0000''" two_party_room] h
  have "''0000'' \<notin> fst ` set (rooms swept_state) \<and> ''0000'' \<notin> usedCodes swept_state"
    by blast
  with run_two_party sweep_two_party h show ?thesis by simp
qed

text \<open>
  Claim C7, as stated, fails: a \<open>typing\<close> event at time 1000 in a room created at time
  0 leaves the room's expiry deadline at \<open>ROOM_EXPIRY_TIME\<close>, not at
  \<open>1000 + ROOM_EXPIRY_TIME\<close>.
\<close>

theorem C7_counterexample:
  "run typing_trace init = Inr (solo_state, typing_out) \<and>
   map_option expiresAt (map_of (rooms solo_state) ''0000'') = Some ROOM_EXPIRY_TIME \<and>
   ROOM_EXPIRY_TIME \<noteq> 1000 + ROOM_EXPIRY_TIME"
  using run_typing by (simp add: solo_state_def solo_room_def)

text \<open>
  Claim C7, amended. A \<open>createRoom\<close>, \<open>joinRoom\<close> or \<open>sendMessage\<close> that succeeds sets
  the expiry deadline of its room to \<open>now + ROOM_EXPIRY_TIME\<close>. \<open>typing\<close> and the
  offer, answer and ICE relays change nothing in the state; \<open>startVoiceChat\<close>,
  \<open>endVoiceChat\<close>, \<open>leaveRoom\<close> and \<open>disconnect\<close> leave the expiry deadline of every
  room that remains as it was.
\<close>

theorem C7_expiry_reset:
  "(createRoom sid data now rnd s = Inr (s', [({sid}, JoinedRoom c name n ms)]) \<longrightarrow>
      map_option expiresAt (map_of (rooms s') c) = Some (now + ROOM_EXPIRY_TIME)) \<and>
   (joinRoom sid data now rnd s = Inr (s', ({sid}, JoinedRoom c name n ms) # rest) \<longrightarrow>
      map_option expiresAt (map_of (rooms s') c) = Some (now + ROOM_EXPIRY_TIME)) \<and>
   (sendMessage sid data now rnd s = Inr (s', [(T, NewMessage m)]) \<longrightarrow>
      (\<exists>rc. roomCode s sid = Some rc \<and>
         map_option expiresAt (map_of (rooms s') rc) = Some (now + ROOM_EXPIRY_TIME))) \<and>
   (typing sid data s = Inr (s', out) \<longrightarrow> s' = s) \<and>
   (voiceChatOffer sid data s = Inr (s', out) \<longrightarrow> s' = s) \<and>
   (voiceChatAnswer sid data s = Inr (s', out) \<longrightarrow> s' = s) \<and>
   (iceCandidate sid data s = Inr (s', out) \<longrightarrow> s' = s) \<and>
   (startVoiceChat sid s = Inr (s', out) \<longrightarrow>
      map_option expiresAt (map_of (rooms s') c) = map_option expiresAt (map_of (rooms s) c)) \<and>
   (endVoiceChat sid s = Inr (s', out) \<longrightarrow>
      map_option expiresAt (map_of (rooms s') c) = map_option expiresAt (map_of (rooms s) c)) \<and>
   (leaveRoom sid s = Inr (s', out) \<and> map_of (rooms s') c = Some r' \<longrightarrow>
      map_option expiresAt (map_of (rooms s) c) = Some (expiresAt r')) \<and>
   (disconnect sid s = Inr (s', out) \<and> map_of (rooms s') c = Some r' \<longrightarrow>
      map_option expiresAt (map_of (rooms s) c) = Some (expiresAt r'))"
proof (intro conjI impI)
  assume "createRoom sid data now rnd s = Inr (s', [({sid}, JoinedRoom c name n ms)])"
  from createRoom_Inr [OF this]
  show "map_option expiresAt (map_of (rooms s') c) = Some (now + ROOM_EXPIRY_TIME)"
    by (auto simp: update_conv')
next
  assume a: "joinRoom sid data now rnd s = Inr (s', ({sid}, JoinedRoom c name n ms) # rest)"
  then show "map_option expiresAt (map_of (rooms s') c) = Some (now + ROOM_EXPIRY_TIME)"
    by (auto simp: joinRoom_def Let_def set_room_def socket_join_def update_conv' logged_Inr
        split: sum.splits jsval.splits option.splits if_splits)
next
  assume "sendMessage sid data now rnd s = Inr (s', [(T, NewMessage m)])"
  from sendMessage_Inr [OF this]
  show "\<exists>rc. roomCode s sid = Some rc \<and>
         map_option expiresAt (map_of (rooms s') rc) = Some (now + ROOM_EXPIRY_TIME)"
    by (auto simp: update_conv')
next
  assume "typing sid data s = Inr (s', out)"
  then show "s' = s" by (auto simp: typing_def split: option.splits if_splits sum.splits)
next
  assume "voiceChatOffer sid data s = Inr (s', out)"
  then show "s' = s" by (auto simp: voiceChatOffer_def split: option.splits)
next
  assume "voiceChatAnswer sid data s = Inr (s', out)"
  then show "s' = s" by (auto simp: voiceChatAnswer_def split: option.splits)
next
  assume "iceCandidate sid data s = Inr (s', out)"
  then show "s' = s" by (auto simp: iceCandidate_def split: option.splits)
next
  assume "startVoiceChat sid s = Inr (s', out)"
  then show "map_option expiresAt (map_of (rooms s') c) =
             map_option expiresAt (map_of (rooms s) c)"
    by (auto simp: startVoiceChat_def Let_def map_of_set_voice option.map_comp comp_def
        split: option.splits)
next
  assume "endVoiceChat sid s = Inr (s', out)"
  then show "map_option expiresAt (map_of (rooms s') c) =
             map_option expiresAt (map_of (rooms s) c)"
    by (auto simp: endVoiceChat_def Let_def map_of_set_voice option.map_comp comp_def
        split: option.splits)
next
  assume a: "leaveRoom sid s = Inr (s', out) \<and> map_of (rooms s') c = Some r'"
  with leaveRoom_Inr [of sid s s' out]
  show "map_option expiresAt (map_of (rooms s) c) = Some (expiresAt r')"
    by (auto dest: map_of_rooms_leave)
next
  assume a: "disconnect sid s = Inr (s', out) \<and> map_of (rooms s') c = Some r'"
  with disconnect_Inr [of sid s s' out]
  show "map_option expiresAt (map_of (rooms s) c) = Some (expiresAt r')"
    by (auto dest: map_of_rooms_disconnect)
qed

theorem C7_expiry_reset_witness:
  "sendMessage ''B'' (JObj [(''message'', JStr '' hello '')]) 5 rnd0 two_party_state =
     Inr (hello_state, [({''B'', ''A''}, NewMessage hello_message)]) \<and>
   roomCode two_party_state ''B'' = Some ''0000'' \<and>
   map_option expiresAt (map_of (rooms hello_state) ''0000'') = Some (5 + ROOM_EXPIRY_TIME)"
proof -
  have t: "roomCode two_party_state ''B'' = Some ''0000''"
    by (simp add: two_party_state_def)
  from C7_expiry_reset [of "''B''" "JObj [(''message'', JStr '' hello '')]" 5 rnd0
      two_party_state hello_state] send_hello
  have "\<exists>rc. roomCode two_party_state ''B'' = Some rc \<and>
         map_option expiresAt (map_of (rooms hello_state) rc) = Some (5 + ROOM_EXPIRY_TIME)"
    by blast
  with t send_hello show ?thesis by simp
qed

text \<open>
  Claim C8, as stated, fails in its \<open>only when\<close>: after Ann's room has expired and Bob
  has created a room that received the same code, Ann's socket still carries the room
  tag and the subscription of the old room; Ann is not a participant of Bob's room, and
  yet her offer is forwarded to Bob.
\<close>

theorem C8_counterexample:
  "run reuse_trace init = Inr (reuse_state, reuse_out) \<and>
   map fst (rooms reuse_state) = [''0000''] \<and>
   map_option (has_user ''A'') (map_of (rooms reuse_state) ''0000'') = Some False \<and>
   voiceChatOffer ''A'' (JStr ''sdp'') reuse_state =
     Inr (reuse_state, [({''B''}, OutVoiceChatOffer (JStr ''sdp''))])"
  using run_reuse offer_reuse
  by (simp add: reuse_state_def reuse_room_def has_user_def)

text \<open>
  Claim C8, amended. In every reachable state, a signaling operation is a no-op unless
  the caller's room tag names an active room (the caller need not be in that room's
  participant list). When it does, the operation emits exactly one event, addressed to
  the subscribers of that room's broadcast group other than the caller, among them
  every other participant whose socket has not closed; offer, answer and ICE candidate
  carry the payload as received and change nothing in the state, and
  \<open>startVoiceChat\<close> and \<open>endVoiceChat\<close> change only the room's voice flag; no message
  history changes.
\<close>

theorem C8_signaling_relay:
  assumes "run evs init = Inr (s, out)"
  shows "(active_room sid s = None \<longrightarrow>
            voiceChatOffer sid data s = Inr (s, []) \<and>
            voiceChatAnswer sid data s = Inr (s, []) \<and>
            iceCandidate sid data s = Inr (s, []) \<and>
            startVoiceChat sid s = Inr (s, []) \<and>
            endVoiceChat sid s = Inr (s, [])) \<and>
         (active_room sid s = Some rc \<longrightarrow>
            voiceChatOffer sid data s =
              Inr (s, [(members s rc - {sid}, OutVoiceChatOffer data)]) \<and>
            voiceChatAnswer sid data s =
              Inr (s, [(members s rc - {sid}, OutVoiceChatAnswer data)]) \<and>
            iceCandidate sid data s =
              Inr (s, [(members s rc - {sid}, OutIceCandidate data)]) \<and>
            startVoiceChat sid s =
              Inr (set_voice True rc s, [(members s rc - {sid}, VoiceChatStarted)]) \<and>
            endVoiceChat sid s =
              Inr (set_voice False rc s, [(members s rc - {sid}, VoiceChatEnded)]) \<and>
            map_option messages (map_of (rooms (set_voice b rc s)) c) =
              map_option messages (map_of (rooms s) c) \<and>
            (\<forall>room u. map_of (rooms s) rc = Some room \<and> u \<in> set (users room) \<and>
               socketId u \<noteq> sid \<and> socketId u \<notin> disconnected s \<longrightarrow>
               socketId u \<in> members s rc - {sid}))"
proof (intro conjI impI allI)
  from assms have cs: "consistent s" by (rule consistent_reachable)
  fix room u
  assume "map_of (rooms s) rc = Some room \<and> u \<in> set (users room) \<and>
               socketId u \<noteq> sid \<and> socketId u \<notin> disconnected s"
  with consistent_room [OF cs, of rc room]
  show "socketId u \<in> members s rc - {sid}"
    by (auto intro: room_inv_subscribed)
qed (simp_all add: voiceChatOffer_def voiceChatAnswer_def iceCandidate_def
    startVoiceChat_def endVoiceChat_def Let_def fields_set_voice messages_set_voice)

theorem C8_signaling_relay_witness:
  "run two_party_trace init = Inr (two_party_state, two_party_out) \<and>
   active_room ''A'' two_party_state = Some ''0000'' \<and>
   voiceChatOffer ''A'' (JStr ''sdp'') two_party_state =
     Inr (two_party_state, [({''B''}, OutVoiceChatOffer (JStr ''sdp''))])"
proof -
  have a: "active_room ''A'' two_party_state = Some ''0000''"
    by (simp add: active_room_def has_room_def two_party_state_def)
  have m: "members two_party_state ''0000'' - {''A''} = {''B''}"
    by (auto simp: two_party_state_def)
  from C8_signaling_relay [OF run_two_party, of "''A''" "JStr ''sdp''" "''0000''"] a
  have "voiceChatOffer ''A'' (JStr ''sdp'') two_party_state =
          Inr (two_party_state,
               [(members two_party_state ''0000'' - {''A''}, OutVoiceChatOffer (JStr ''sdp''))])"
    by blast
  with run_two_party a m show ?thesis by simp
qed

text \<open>
  Claim C9, as stated, fails: a \<open>joinRoom\<close> event without a payload throws a
  \<open>TypeError\<close> out of the handler.
\<close>

theorem C9_counterexample:
  "step (EvJoinRoom ''A'' JUndefined, 0, rnd0) init = Inl TypeError"
  by (simp add: step_def init_def joinRoom_def)

text \<open>
  Claim C9, amended. In every reachable state, for a payload that is present (neither
  \<open>undefined\<close> nor \<open>null\<close>) with \<open>code\<close> field \<open>c\<close> and \<open>username\<close> field \<open>u\<close> (a missing
  field reads as \<open>undefined\<close>): \<open>joinRoom\<close> returns when \<open>c\<close> and \<open>u\<close> have a string
  form, and throws a \<open>TypeError\<close> when \<open>c\<close> has none; \<open>createRoom\<close> throws no
  \<open>TypeError\<close> when \<open>u\<close> has a string form, and does not return when \<open>u\<close> has none;
  \<open>typing\<close> returns; \<open>sendMessage\<close> returns whenever the \<open>message\<close> field is a string;
  a \<open>joinRoom\<close> whose \<open>code\<close> field is missing or not a string, but has a string form,
  answers the caller with the invalid-code or the room-not-found error and leaves the
  state unchanged. The signaling, leave and disconnect handlers return on every
  payload.
\<close>

theorem C9_present_payload:
  assumes "run evs init = Inr (s, out)"
    and "data \<noteq> JUndefined" "data \<noteq> JNull"
    and "get_prop data ''code'' = Inr c" "get_prop data ''username'' = Inr u"
  shows "(returns (js_to_string c) \<and> returns (js_to_string u) \<longrightarrow>
            returns (joinRoom sid data now rnd s)) \<and>
         (\<not> returns (js_to_string c) \<longrightarrow> joinRoom sid data now rnd s = Inl TypeError) \<and>
         (returns (js_to_string u) \<longrightarrow> createRoom sid data now rnd s \<noteq> Inl TypeError) \<and>
         (\<not> returns (js_to_string u) \<longrightarrow> \<not> returns (createRoom sid data now rnd s)) \<and>
         returns (typing sid data s) \<and>
         (get_prop data ''message'' = Inr (JStr body) \<longrightarrow>
            returns (sendMessage sid data now rnd s)) \<and>
         ((\<forall>c'. c \<noteq> JStr c') \<and> returns (js_to_string c) \<longrightarrow>
            joinRoom sid data now rnd s = Inr (s, [({sid}, ErrorEv msg_InvalidCode)]) \<or>
            joinRoom sid data now rnd s = Inr (s, [({sid}, ErrorEv msg_RoomNotFound)])) \<and>
         returns (voiceChatOffer sid payload s) \<and>
         returns (voiceChatAnswer sid payload s) \<and>
         returns (iceCandidate sid payload s) \<and>
         returns (startVoiceChat sid s) \<and>
         returns (endVoiceChat sid s) \<and>
         returns (leaveRoom sid s) \<and>
         returns (disconnect sid (close_socket sid s))"
proof -
  from assms(1) have cs: "consistent s" by (rule consistent_reachable)
  note g = assms(4,5)
  from assms(2,3) obtain m t where
    g': "get_prop data ''message'' = Inr m" "get_prop data ''isTyping'' = Inr t"
    using get_prop_present by metis
  have shown: "returns (js_to_string (js_or u v))" if "returns (js_to_string u)"
    "returns (js_to_string v)" for v
    using that by (simp add: js_or_def)
  have j: "returns (joinRoom sid data now rnd s)"
    if "returns (js_to_string c)" "returns (js_to_string u)"
  proof -
    from that obtain sc where sc: "js_to_string c = Inr sc" by (auto simp: returns_iff)
    from that shown [of "JStr ''anonymous''"] obtain sh where
      sh: "js_to_string (js_or u (JStr ''anonymous'')) = Inr sh" by (auto simp: returns_iff)
    from that have lg: "logged (js_or u (auto_name rnd 0)) r = r" for r :: "fault + state \<times> emission list"
      by (intro logged_returns shown returns_js_to_string_auto_name)
    show ?thesis
    proof (cases "\<exists>x. c = JStr x")
      case True
      then obtain x where "c = JStr x" by blast
      with g sh lg show ?thesis
        by (simp add: joinRoom_def Let_def code_test_def split: option.splits)
    next
      case False
      with g sc show ?thesis
        by (cases c) (simp_all add: joinRoom_def Let_def code_test_def)
    qed
  qed
  have jt: "joinRoom sid data now rnd s = Inl TypeError" if "\<not> returns (js_to_string c)"
  proof -
    from that obtain f where f: "js_to_string c = Inl f" by (cases "js_to_string c") auto
    then have "f = TypeError" by (rule js_to_string_fault)
    with f g show ?thesis by (simp add: joinRoom_def code_test_def)
  qed
  have cr: "createRoom sid data now rnd s \<noteq> Inl TypeError" if "returns (js_to_string u)"
    using g that shown [OF that returns_js_to_string_auto_name]
    by (auto simp: createRoom_def Let_def logged_returns split: option.splits prod.splits)
  have crt: "\<not> returns (createRoom sid data now rnd s)" if n: "\<not> returns (js_to_string u)"
  proof
    assume "returns (createRoom sid data now rnd s)"
    then obtain s' out' where "createRoom sid data now rnd s = Inr (s', out')"
      by (auto simp: returns_iff)
    from createRoom_Inr [OF this] g obtain k where
      "returns (js_to_string (js_or u (auto_name rnd k)))" by auto
    moreover from n have "truthy u" using returns_js_to_string_falsy by blast
    ultimately show False using n by (simp add: js_or_def)
  qed
  have t: "returns (typing sid data s)"
    using g g' by (simp add: typing_def split: option.splits)
  have sm: "returns (sendMessage sid data now rnd s)"
    if "get_prop data ''message'' = Inr (JStr body)"
    using that by (simp add: sendMessage_def Let_def split: option.splits)
  have jc: "joinRoom sid data now rnd s = Inr (s, [({sid}, ErrorEv msg_InvalidCode)]) \<or>
            joinRoom sid data now rnd s = Inr (s, [({sid}, ErrorEv msg_RoomNotFound)])"
    if "(\<forall>c'. c \<noteq> JStr c') \<and> returns (js_to_string c)"
    using g that
    by (cases c) (auto simp: joinRoom_def code_test_def returns_iff split: if_splits sum.splits)
  have rest: "returns (voiceChatOffer sid payload s)" "returns (voiceChatAnswer sid payload s)"
    "returns (iceCandidate sid payload s)" "returns (startVoiceChat sid s)"
    "returns (endVoiceChat sid s)"
    by (simp_all add: voiceChatOffer_def voiceChatAnswer_def iceCandidate_def
        startVoiceChat_def endVoiceChat_def Let_def split: option.splits)
  have stored: "\<exists>shown. js_to_string (username (users room ! i)) = Inr shown"
    if "map_of (rooms s) rc = Some room"
      "findIndex (\<lambda>u. socketId u = sid) (users room) = Some i" for rc room i
  proof -
    from that(2) have "i < length (users room)" by (auto dest: findIndex_Some)
    then have "users room ! i \<in> set (users room)" by simp
    with consistent_room [OF cs that(1)] show ?thesis
      by (auto simp: returns_iff dest: room_inv_shown)
  qed
  have lv: "returns (leaveRoom sid s)"
    by (auto simp: leaveRoom_def Let_def active_room_def has_room_def
        split: option.splits sum.splits if_splits dest: stored)
  have dc: "returns (disconnect sid (close_socket sid s))"
    by (auto simp: disconnect_def Let_def active_room_def has_room_def
        close_socket_def split: option.splits sum.splits if_splits dest: stored)
  from j jt cr crt t sm jc rest lv dc show ?thesis by blast
qed

theorem C9_present_payload_witness:
  "run solo_trace init = Inr (solo_state, solo_out) \<and>
   get_prop (JObj [(''code'', JStr ''0000''), (''username'', JStr ''Bob'')]) ''code'' =
     Inr (JStr ''0000'') \<and>
   get_prop (JObj [(''code'', JStr ''0000''), (''username'', JStr ''Bob'')]) ''username'' =
     Inr (JStr ''Bob'') \<and>
   returns (js_to_string (JStr ''0000'')) \<and> returns (js_to_string (JStr ''Bob'')) \<and>
   returns (joinRoom ''B'' (JObj [(''code'', JStr ''0000''), (''username'', JStr ''Bob'')])
              1 rnd0 solo_state) \<and>
   returns (leaveRoom ''A'' solo_state)"
  using C9_present_payload [OF run_solo, of
      "JObj [(''code'', JStr ''0000''), (''username'', JStr ''Bob'')]"
      "JStr ''0000''" "JStr ''Bob''" "''B''" 1 rnd0]
    C9_present_payload [OF run_solo, of
      "JObj [(''code'', JStr ''0000''), (''username'', JStr ''Bob'')]"
      "JStr ''0000''" "JStr ''Bob''" "''A''" 1 rnd0]
    run_solo
  by simp

text \<open>
  Claim C10, as stated, fails: socket \<open>B\<close> joined without a display name and left, and
  yet the later anonymous join of the same code by socket \<open>E\<close>, whose identity is not in
  the ledger, is rejected by the name-based check, because in between a participant
  whose display name was \<open>anonymous\<close> has left the room.
\<close>

theorem C10_counterexample:
  "run anon_trace init = Inr (anon_state, anon_out) \<and>
   session_key ''User0'' ''0000'' \<in> usernameSessions anon_state \<and>
   session_key ''E'' ''0000'' \<notin> userSessions anon_state \<and>
   joinRoom ''E'' (JObj [(''code'', JStr ''0000'')]) 5 rnd0 anon_state =
     Inr (anon_state, [({''E''}, ErrorEv msg_RejoinForbidden)])"
  using run_anon join_anon by (simp add: anon_state_def session_key_def)

text \<open>
  Claim C10, amended. When a participant whose display name was generated
  (\<open>User\<close> followed by a number) leaves its room or disconnects, the name ledger gains
  the key of that generated name, and the key \<open>anonymous-c\<close> is in the ledger afterwards
  exactly if it was before, for every code \<open>c\<close>. A \<open>joinRoom\<close> without a truthy display
  name that passes the earlier guards, by a socket whose identity key is not in the
  ledger, is rejected as a forbidden rejoin exactly if the key \<open>anonymous-c\<close> is in the
  name ledger.
\<close>

theorem C10_anonymous_rejoin:
  assumes "roomCode s sid = Some rc" "rc \<noteq> []" "map_of (rooms s) rc = Some room"
    and "find (\<lambda>u. socketId u = sid) (users room) = Some u"
    and "username u = auto_name gen i"
    and "leaveRoom sid s = Inr (s1, out1) \<or> disconnect sid (close_socket sid s) = Inr (s1, out1)"
  shows "js_to_string (username u) = Inr (''User'' @ dec (gen i mod 1000)) \<and>
         session_key (''User'' @ dec (gen i mod 1000)) rc \<in> usernameSessions s1 \<and>
         (session_key ''anonymous'' c \<in> usernameSessions s1 \<longleftrightarrow>
          session_key ''anonymous'' c \<in> usernameSessions s) \<and>
         (get_prop data ''code'' = Inr (JStr c) \<and> get_prop data ''username'' = Inr un \<and>
          \<not> truthy un \<and> four_digits c \<and> map_of (rooms s2) c = Some r2 \<and>
          length (users r2) < 2 \<and> \<not> has_user sid2 r2 \<and>
          session_key sid2 c \<notin> userSessions s2 \<longrightarrow>
            (joinRoom sid2 data now rnd s2 =
               Inr (s2, [({sid2}, ErrorEv msg_RejoinForbidden)]) \<longleftrightarrow>
             session_key ''anonymous'' c \<in> usernameSessions s2))"
proof (intro conjI impI)
  show nm: "js_to_string (username u) = Inr (''User'' @ dec (gen i mod 1000))"
    by (simp add: assms(5) js_to_string_auto_name)
  have "usernameSessions s1 =
          insert (session_key (''User'' @ dec (gen i mod 1000)) rc) (usernameSessions s)"
    using assms(6)
  proof
    assume "leaveRoom sid s = Inr (s1, out1)"
    from leaveRoom_records [OF assms(1-4) this] nm show ?thesis by simp
  next
    assume "disconnect sid (close_socket sid s) = Inr (s1, out1)"
    from disconnect_records [of "close_socket sid s" sid rc room u, OF _ assms(2) _ assms(4) this]
      assms(1,3) nm
    show ?thesis by (simp add: close_socket_def)
  qed
  then show "session_key (''User'' @ dec (gen i mod 1000)) rc \<in> usernameSessions s1"
    "session_key ''anonymous'' c \<in> usernameSessions s1 \<longleftrightarrow>
     session_key ''anonymous'' c \<in> usernameSessions s"
    using session_key_anonymous [of c "dec (gen i mod 1000)" rc] by auto
next
  assume a: "get_prop data ''code'' = Inr (JStr c) \<and> get_prop data ''username'' = Inr un \<and>
          \<not> truthy un \<and> four_digits c \<and> map_of (rooms s2) c = Some r2 \<and>
          length (users r2) < 2 \<and> \<not> has_user sid2 r2 \<and>
          session_key sid2 c \<notin> userSessions s2"
  then have "js_to_string (js_or un (JStr ''anonymous'')) = Inr ''anonymous''"
    by (simp add: js_or_def)
  with a joinRoom_ledger_check [of data c un s2 r2 sid2 "''anonymous''" now rnd]
  show "joinRoom sid2 data now rnd s2 =
               Inr (s2, [({sid2}, ErrorEv msg_RejoinForbidden)]) \<longleftrightarrow>
             session_key ''anonymous'' c \<in> usernameSessions s2"
    by simp
qed

theorem C10_anonymous_rejoin_witness:
  "run guest_trace init = Inr (guest_state, guest_out) \<and>
   leaveRoom ''B'' guest_state = Inr (guest_left_state, guest_left_out) \<and>
   session_key ''User0'' ''0000'' \<in> usernameSessions guest_left_state \<and>
   session_key ''anonymous'' ''0000'' \<notin> usernameSessions guest_left_state \<and>
   joinRoom ''E'' (JObj [(''code'', JStr ''0000'')]) 5 rnd0 guest_left_state \<noteq>
     Inr (guest_left_state, [({''E''}, ErrorEv msg_RejoinForbidden)])"
proof -
  let ?u = "\<lparr>socketId = ''B'', username = JStr ''User0'', joinedAt = 1\<rparr>"
  let ?r = "guest_room\<lparr>users :=
                  [\<lparr>socketId = ''A'', username = JStr ''Ann'', joinedAt = 0\<rparr>]\<rparr>"
  have l: "leaveRoom ''B'' guest_state = Inr (guest_left_state, guest_left_out)"
    using leave_guest by (simp add: step_def guest_state_def two_party_state_def)
  have h: "roomCode guest_state ''B'' = Some ''0000''" "''0000'' \<noteq> []"
    "map_of (rooms guest_state) ''0000'' = Some guest_room"
    "find (\<lambda>u. socketId u = ''B'') (users guest_room) = Some ?u"
    "username ?u = auto_name rnd0 0"
    by (simp_all add: guest_state_def two_party_state_def guest_room_def auto_name_rnd0)
  have n: "session_key ''anonymous'' ''0000'' \<notin> usernameSessions guest_state"
    by (simp add: guest_state_def two_party_state_def)
  have j: "get_prop (JObj [(''code'', JStr ''0000'')]) ''code'' = Inr (JStr ''0000'') \<and>
           get_prop (JObj [(''code'', JStr ''0000'')]) ''username'' = Inr JUndefined \<and>
           \<not> truthy JUndefined \<and> four_digits ''0000'' \<and>
           map_of (rooms guest_left_state) ''0000'' = Some ?r \<and>
           length (users ?r) < 2 \<and> \<not> has_user ''E'' ?r \<and>
           session_key ''E'' ''0000'' \<notin> userSessions guest_left_state"
    by (simp add: guest_left_state_def four_digits_0000 has_user_def session_key_def)
  have d: "dec (rnd0 0 mod 1000) = ''0''"
    using auto_name_rnd0 [of 0] by (simp add: auto_name_def)
  from C10_anonymous_rejoin [OF h, of guest_left_state guest_left_out "''0000''"
      "JObj [(''code'', JStr ''0000'')]" JUndefined guest_left_state ?r "''E''" 5 rnd0]
    l n j d
  have "session_key ''User0'' ''0000'' \<in> usernameSessions guest_left_state \<and>
        session_key ''anonymous'' ''0000'' \<notin> usernameSessions guest_left_state \<and>
        joinRoom ''E'' (JObj [(''code'', JStr ''0000'')]) 5 rnd0 guest_left_state \<noteq>
          Inr (guest_left_state, [({''E''}, ErrorEv msg_RejoinForbidden)])"
    by simp
  with run_guest l show ?thesis by simp
qed

end
